theory Spec2Isabelle
  imports
    Complex_Main
    "HOL-Library.Multiset"
    "HOL-Library.Char_ord"
    "HOL-Library.List_Lexorder"
begin

section \<open>Go values used by the panes\<close>

text \<open>
  Go's \<open>int\<close> is modelled by \<open>int\<close>: every integer of the panes is a list index, a
  list length or a terminal extent, far from the 64-bit bounds. A Go \<open>string\<close> is a byte
  sequence, here a \<open>string\<close> (a \<open>char list\<close>, one \<open>char\<close> per byte), and \<open><\<close> on strings
  is the bytewise lexicographic order in both. A Go \<open>error\<close> is a \<open>string option\<close>,
  \<open>None\<close> for \<open>nil\<close>.
\<close>

type_synonym error = "string option"

datatype panic = IndexOutOfRange | NilDereference

text \<open>Slice indexing \<open>xs[i]\<close>: Go panics outside \<open>0 \<le> i < len(xs)\<close>.\<close>

definition index :: "'a list \<Rightarrow> int \<Rightarrow> panic + 'a" where
  "index xs i = (if 0 \<le> i \<and> i < int (length xs) then Inr (xs ! nat i) else Inl IndexOutOfRange)"

text \<open>Integer division \<open>a / b\<close> of Go truncates toward zero.\<close>

definition quo :: "int \<Rightarrow> int \<Rightarrow> int" where
  "quo a b = sgn a * sgn b * (\<bar>a\<bar> div \<bar>b\<bar>)"

definition HasPrefix :: "string \<Rightarrow> string \<Rightarrow> bool" where
  "HasPrefix s p = (length p \<le> length s \<and> take (length p) s = p)"

text \<open>
  \<open>filepath.Ext\<close>: the suffix beginning at the final dot in the final element of the
  path, empty when that element has no dot. The library scans from the end and stops at
  a path separator (\<open>/\<close>, as on Unix); \<open>ExtScan\<close> is that scan on the reversed path,
  carrying the bytes already passed.
\<close>

fun ExtScan :: "string \<Rightarrow> string \<Rightarrow> string" where
  "ExtScan [] seen = []"
| "ExtScan (c # rest) seen =
     (if c = CHR ''/'' then []
      else if c = CHR ''.'' then c # seen
      else ExtScan rest (c # seen))"

definition Ext :: "string \<Rightarrow> string" where
  "Ext path = ExtScan (rev path) []"

text \<open>\<open>strings.Split(s, "\n")\<close>: the lines of \<open>s\<close>, one more than its newlines.\<close>

fun Split_nl :: "string \<Rightarrow> string list" where
  "Split_nl [] = [[]]"
| "Split_nl (c # cs) =
     (if c = CHR 0x0A then [] # Split_nl cs
      else (case Split_nl cs of [] \<Rightarrow> [[c]] | l # ls \<Rightarrow> (c # l) # ls))"

text \<open>\<open>fmt.Sprintf("%d", i)\<close> for an index \<open>i \<ge> 0\<close>.\<close>

definition digit :: "nat \<Rightarrow> char" where
  "digit d = ''0123456789'' ! d"

fun itoa :: "nat \<Rightarrow> string" where
  "itoa n = (if n < 10 then [digit n] else itoa (n div 10) @ [digit (n mod 10)])"

declare itoa.simps [simp del]

section \<open>The structured-data tree\<close>

text \<open>
  What \<open>json.Unmarshal\<close> stores into an \<open>any\<close>: \<open>nil\<close>, \<open>bool\<close>, \<open>float64\<close>, \<open>string\<close>,
  \<open>[]any\<close> and \<open>map[string]any\<close>. The entries of a map are listed with distinct keys in
  the order the parser read them from the document; the Go map itself does not keep that
  order.
\<close>

datatype jvalue =
    JNull
  | JBool bool
  | JNumber real
  | JString string
  | JArray "jvalue list"
  | JObject "(string \<times> jvalue) list"

datatype JSONNode =
  JSONNode (Key: string) (Value: jvalue) (Children: "JSONNode list")
           (Expanded: bool) (Depth: int) (IsArray: bool)

section \<open>Messages\<close>

datatype Msg =
    KeyMsg string
  | WindowSizeMsg int int
  | FileSelectedMsg string
  | FileLoadedMsg string string error
  | MarkdownLoadedMsg string string error
  | JSONLoadedMsg string "JSONNode option" error
  | EditorOpenMsg string string error
  | EditorSavedMsg string error
  | EditorCancelledMsg string

section \<open>The navigation pane (nav.go)\<close>

text \<open>An \<open>os.DirEntry\<close> as the pane reads it: \<open>Name()\<close> and \<open>IsDir()\<close>.\<close>

record DirEntry =
  de_Name :: string
  de_IsDir :: bool

record FileEntry =
  fe_Name :: string
  fe_Path :: string
  fe_IsDir :: bool
  fe_Expanded :: bool
  fe_Depth :: int

text \<open>
  The library functions the panes call whose code is not in the repository:
  \<open>os.ReadDir\<close> (an error or the entries), \<open>filepath.Join\<close>, \<open>filepath.Dir\<close> and
  \<open>strings.ToLower\<close>. The last maps every Unicode letter of a string to its lower
  case; that mapping is a table of the library, so the function is taken as it is, a
  function from strings to strings, and the panes are specified for whatever it returns.
\<close>

record StdLib =
  ReadDir :: "string \<Rightarrow> string + DirEntry list"
  Join :: "string \<Rightarrow> string \<Rightarrow> string"
  Dir :: "string \<Rightarrow> string"
  ToLower :: "string \<Rightarrow> string"

record NavPane =
  nav_width :: int
  nav_height :: int
  nav_focused :: bool
  nav_root :: string
  nav_entries :: "FileEntry list"
  nav_cursor :: int
  nav_offset :: int

text \<open>The comparison handed to \<open>sort.Slice\<close> in \<open>loadDir\<close>.\<close>

definition filesLess :: "StdLib \<Rightarrow> DirEntry \<Rightarrow> DirEntry \<Rightarrow> bool" where
  "filesLess lib fi fj =
     (let iDir = de_IsDir fi; jDir = de_IsDir fj
      in if iDir \<noteq> jDir then iDir
         else ToLower lib (de_Name fi) < ToLower lib (de_Name fj))"

text \<open>
  \<open>sort.Slice\<close> as an insertion sort. The library promises a permutation ordered by the
  comparison and no order among entries the comparison does not separate; nothing
  below depends on the order of such entries.
\<close>

fun insertSorted :: "('a \<Rightarrow> 'a \<Rightarrow> bool) \<Rightarrow> 'a \<Rightarrow> 'a list \<Rightarrow> 'a list" where
  "insertSorted lt x [] = [x]"
| "insertSorted lt x (y # ys) = (if lt x y then x # y # ys else y # insertSorted lt x ys)"

definition sortSlice :: "('a \<Rightarrow> 'a \<Rightarrow> bool) \<Rightarrow> 'a list \<Rightarrow> 'a list" where
  "sortSlice lt xs = foldr (insertSorted lt) xs []"

lemma length_insertSorted [simp]: "length (insertSorted lt x ys) = Suc (length ys)"
  by (induction ys) auto

lemma length_sortSlice [simp]: "length (sortSlice lt xs) = length xs"
  by (induction xs) (auto simp: sortSlice_def)

text \<open>
  \<open>loadDir\<close> appends to \<open>n.entries\<close>; the entries are passed and returned.
  \<open>loadDir_loop\<close> is its \<open>for _, f := range files\<close>. The entry is built without an
  \<open>Expanded\<close> field, so it holds Go's zero value \<open>false\<close>.
\<close>

function loadDir :: "StdLib \<Rightarrow> string \<Rightarrow> int \<Rightarrow> FileEntry list \<Rightarrow> FileEntry list"
  and loadDir_loop ::
    "StdLib \<Rightarrow> string \<Rightarrow> int \<Rightarrow> DirEntry list \<Rightarrow> FileEntry list \<Rightarrow> FileEntry list"
where
  "loadDir lib dir depth entries =
     (case ReadDir lib dir of
        Inl err \<Rightarrow> entries
      | Inr files \<Rightarrow> loadDir_loop lib dir depth (sortSlice (filesLess lib) files) entries)"
| "loadDir_loop lib dir depth [] entries = entries"
| "loadDir_loop lib dir depth (f # files) entries =
     (let name = de_Name f in
      if HasPrefix name ''.'' \<and> name \<noteq> ''.git'' then loadDir_loop lib dir depth files entries
      else
        let path = Join lib dir name;
            entry = \<lparr>fe_Name = name, fe_Path = path, fe_IsDir = de_IsDir f,
                     fe_Expanded = False, fe_Depth = depth\<rparr>;
            entries1 = entries @ [entry];
            entries2 = (if fe_IsDir entry \<and> fe_Expanded entry
                        then loadDir lib path (depth + 1) entries1 else entries1)
        in loadDir_loop lib dir depth files entries2)"
  by pat_completeness auto
termination
  by (relation "measure (\<lambda>x. case x of
           Inl (lib, dir, depth, entries) \<Rightarrow>
             (case ReadDir lib dir of Inl e \<Rightarrow> 1 | Inr files \<Rightarrow> Suc (length files))
         | Inr (lib, dir, depth, files, entries) \<Rightarrow> length files)") auto

definition loadEntries :: "StdLib \<Rightarrow> NavPane \<Rightarrow> NavPane" where
  "loadEntries lib n = n\<lparr>nav_entries := loadDir lib (nav_root n) 0 []\<rparr>"

definition NewNavPane :: "StdLib \<Rightarrow> string \<Rightarrow> NavPane" where
  "NewNavPane lib rootDir =
     loadEntries lib \<lparr>nav_width = 0, nav_height = 0, nav_focused = False, nav_root = rootDir,
                     nav_entries = [], nav_cursor = 0, nav_offset = 0\<rparr>"

definition SelectedPath :: "NavPane \<Rightarrow> panic + string" where
  "SelectedPath n =
     (if nav_cursor n \<ge> 0 \<and> nav_cursor n < int (length (nav_entries n))
      then (case index (nav_entries n) (nav_cursor n) of
              Inl p \<Rightarrow> Inl p
            | Inr e \<Rightarrow> Inr (fe_Path e))
      else Inr '''')"

definition adjustOffset :: "NavPane \<Rightarrow> NavPane" where
  "adjustOffset n =
     (let visibleHeight = nav_height n - 2;
          visibleHeight = (if visibleHeight < 1 then 1 else visibleHeight);
          n1 = (if nav_cursor n < nav_offset n then n\<lparr>nav_offset := nav_cursor n\<rparr> else n);
          n2 = (if nav_cursor n1 \<ge> nav_offset n1 + visibleHeight
                then n1\<lparr>nav_offset := nav_cursor n1 - visibleHeight + 1\<rparr> else n1)
      in n2)"

definition moveCursor :: "NavPane \<Rightarrow> int \<Rightarrow> NavPane" where
  "moveCursor n delta =
     (let n1 = n\<lparr>nav_cursor := nav_cursor n + delta\<rparr>;
          n2 = (if nav_cursor n1 < 0 then n1\<lparr>nav_cursor := 0\<rparr> else n1);
          n3 = (if nav_cursor n2 \<ge> int (length (nav_entries n2))
                then n2\<lparr>nav_cursor := int (length (nav_entries n2)) - 1\<rparr> else n2)
      in adjustOffset n3)"

text \<open>
  The \<open>for i, e := range n.entries\<close> of \<open>toggleOrOpen\<close> and \<open>goToParent\<close>: the first
  index whose entry has the path looked for.
\<close>

fun findPath :: "string \<Rightarrow> FileEntry list \<Rightarrow> nat \<Rightarrow> nat option" where
  "findPath p [] i = None"
| "findPath p (e # es) i = (if fe_Path e = p then Some i else findPath p es (Suc i))"

text \<open>
  \<open>toggleOrOpen\<close>: \<open>entry\<close> points into the slice that \<open>loadEntries\<close> then replaces, so
  the flipped flag is written to the old slice and \<open>entry.Path\<close> is read from it. The
  guard keeps the index inside the slice.
\<close>

definition toggleOrOpen :: "StdLib \<Rightarrow> NavPane \<Rightarrow> NavPane" where
  "toggleOrOpen lib n =
     (if nav_cursor n < 0 \<or> nav_cursor n \<ge> int (length (nav_entries n)) then n
      else
        let i = nat (nav_cursor n);
            entry = nav_entries n ! i
        in if fe_IsDir entry then
             let entry1 = entry\<lparr>fe_Expanded := \<not> fe_Expanded entry\<rparr>;
                 n1 = n\<lparr>nav_entries := (nav_entries n)[i := entry1]\<rparr>;
                 n2 = loadEntries lib n1
             in (case findPath (fe_Path entry1) (nav_entries n2) 0 of
                   Some k \<Rightarrow> n2\<lparr>nav_cursor := int k\<rparr>
                 | None \<Rightarrow> n2)
           else n)"

definition goToParent :: "StdLib \<Rightarrow> NavPane \<Rightarrow> NavPane" where
  "goToParent lib n =
     (let parent = Dir lib (nav_root n) in
      if parent \<noteq> nav_root n then
        let oldRoot = nav_root n;
            n1 = loadEntries lib (n\<lparr>nav_root := parent\<rparr>)
        in (case findPath oldRoot (nav_entries n1) 0 of
              Some k \<Rightarrow> adjustOffset (n1\<lparr>nav_cursor := int k\<rparr>)
            | None \<Rightarrow> n1)
      else n)"

definition NavPane_Update :: "StdLib \<Rightarrow> NavPane \<Rightarrow> Msg \<Rightarrow> NavPane" where
  "NavPane_Update lib n msg =
     (if \<not> nav_focused n then n
      else (case msg of
        KeyMsg k \<Rightarrow>
          if k = ''j'' \<or> k = ''down'' then moveCursor n 1
          else if k = ''k'' \<or> k = ''up'' then moveCursor n (- 1)
          else if k = ''g'' then n\<lparr>nav_cursor := 0, nav_offset := 0\<rparr>
          else if k = ''G'' then
            adjustOffset (n\<lparr>nav_cursor := int (length (nav_entries n)) - 1\<rparr>)
          else if k = ''enter'' \<or> k = ''l'' then toggleOrOpen lib n
          else if k = ''h'' \<or> k = ''backspace'' then goToParent lib n
          else n
      | _ \<Rightarrow> n))"

text \<open>A run of messages through \<open>Update\<close>, one at a time, in arrival order.\<close>

definition NavPane_Updates :: "StdLib \<Rightarrow> NavPane \<Rightarrow> Msg list \<Rightarrow> NavPane" where
  "NavPane_Updates lib n msgs = foldl (NavPane_Update lib) n msgs"

text \<open>
  The rows \<open>View\<close> reads: it indexes \<open>n.entries[i]\<close> for \<open>i\<close> from \<open>n.offset\<close> up to
  \<open>min (n.offset + n.height - 2) len(n.entries)\<close>, after returning early on an empty
  slice. \<open>View_rows\<close> gives the entries read, or the panic of the first index outside
  the slice.
\<close>

fun readRows :: "FileEntry list \<Rightarrow> int \<Rightarrow> nat \<Rightarrow> panic + FileEntry list" where
  "readRows es i 0 = Inr []"
| "readRows es i (Suc k) =
     (case index es i of
        Inl p \<Rightarrow> Inl p
      | Inr e \<Rightarrow> (case readRows es (i + 1) k of Inl p \<Rightarrow> Inl p | Inr rest \<Rightarrow> Inr (e # rest)))"

definition View_rows :: "NavPane \<Rightarrow> panic + FileEntry list" where
  "View_rows n =
     (if length (nav_entries n) = 0 then Inr []
      else
        let visibleHeight = nav_height n - 2;
            end0 = nav_offset n + visibleHeight;
            end1 = (if end0 > int (length (nav_entries n)) then int (length (nav_entries n)) else end0)
        in readRows (nav_entries n) (nav_offset n) (nat (end1 - nav_offset n)))"

section \<open>The JSON viewer (JSONViewer, JSONNode, buildTree)\<close>

text \<open>
  What the background loads read: \<open>os.ReadFile\<close> (content and error),
  \<open>json.Unmarshal\<close> into an \<open>any\<close>, the markdown renderer (building the renderer and
  rendering, \<open>Inl\<close> for the error of either step), and the order in which the runtime
  enumerates a map. Go leaves the iteration order of \<open>range\<close> over a map unspecified; the
  model takes it from \<open>mapRank\<close>, which gives for each map an arbitrary ranking of its
  keys, chosen by the runtime: the entries are visited by ascending rank. Every order of
  the entries of a map is the order of some ranking.
\<close>

record Reader =
  ReadFile :: "string \<Rightarrow> string \<times> error"
  Unmarshal :: "string \<Rightarrow> string + jvalue"
  Render :: "string \<Rightarrow> string + string"
  mapRank :: "(string \<times> jvalue) list \<Rightarrow> string \<Rightarrow> nat"

text \<open>A command (\<open>tea.Cmd\<close>) of a load: run later, it reads and gives a message.\<close>

type_synonym Cmd = "Reader \<Rightarrow> Msg"

definition rangeMap :: "(string \<Rightarrow> nat) \<Rightarrow> (string \<times> jvalue) list \<Rightarrow> (string \<times> jvalue) list" where
  "rangeMap rank v = sort_key (\<lambda>kv. rank (fst kv)) v"

lemma size_entry_less:
  "(k, val) \<in> set v \<Longrightarrow> size val < Suc (size_list (size_prod (\<lambda>x. 0) size) v)"
  by (induction v) auto

lemma size_elem_less: "val \<in> set v \<Longrightarrow> size val < Suc (size_list size v)"
  by (induction v) auto

function buildTree :: "((string \<times> jvalue) list \<Rightarrow> string \<Rightarrow> nat) \<Rightarrow> string \<Rightarrow> jvalue \<Rightarrow> int \<Rightarrow> JSONNode" where
  "buildTree rank key value depth =
     (case value of
        JObject v \<Rightarrow>
          JSONNode key value
            (map (\<lambda>(k, val). buildTree rank k val (depth + 1)) (rangeMap (rank v) v))
            False depth False
      | JArray v \<Rightarrow>
          JSONNode key value
            (map (\<lambda>(i, val). buildTree rank (''['' @ itoa i @ '']'') val (depth + 1))
               (enumerate 0 v))
            False depth True
      | _ \<Rightarrow> JSONNode key value [] False depth False)"
  by pat_completeness auto
termination
proof (relation "measure (\<lambda>(rank, key, x, depth). size x)")
  show "wf (measure (\<lambda>(rank, key, x, depth). size x))"
    by simp
next
  fix rank :: "(string \<times> jvalue) list \<Rightarrow> string \<Rightarrow> nat" and key :: string and x :: jvalue and depth :: int
    and v :: "jvalue list" and iv :: "nat \<times> jvalue" and i :: nat and val :: jvalue
  assume "x = JArray v" and "iv \<in> set (enumerate 0 v)" and "(i, val) = iv"
  then have "val \<in> set v" and "x = JArray v"
    by (auto simp: in_set_enumerate_eq)
  then show "((rank, ''['' @ itoa i @ '']'', val, depth + 1), rank, key, x, depth)
      \<in> measure (\<lambda>(rank, key, x, depth). size x)"
    using size_elem_less [of val v] by simp
next
  fix rank :: "(string \<times> jvalue) list \<Rightarrow> string \<Rightarrow> nat" and key :: string and x :: jvalue and depth :: int
    and v :: "(string \<times> jvalue) list" and kv :: "string \<times> jvalue" and k :: string
    and val :: jvalue
  assume "x = JObject v" and "kv \<in> set (rangeMap (rank v) v)" and "(k, val) = kv"
  then have "(k, val) \<in> set v" and "x = JObject v"
    by (auto simp: rangeMap_def)
  then show "((rank, k, val, depth + 1), rank, key, x, depth)
      \<in> measure (\<lambda>(rank, key, x, depth). size x)"
    using size_entry_less [of k val v] by simp
qed

record JSONViewer =
  jv_width :: int
  jv_height :: int
  jv_focused :: bool
  jv_path :: string
  jv_root :: "JSONNode option"
  jv_cursor :: int
  jv_offset :: int
  jv_err :: error

definition NewJSONViewer :: JSONViewer where
  "NewJSONViewer =
     \<lparr>jv_width = 0, jv_height = 0, jv_focused = False, jv_path = '''', jv_root = None,
      jv_cursor = 0, jv_offset = 0, jv_err = None\<rparr>"

text \<open>
  A \<open>*JSONNode\<close> is modelled by the position of the node in the tree: the child indices
  on the way from the root. \<open>buildTree\<close> allocates one node per position and nothing
  else stores a node, so positions and pointers correspond one to one. \<open>nodeAt\<close>
  reads through a pointer, \<open>setExpanded\<close> writes the \<open>Expanded\<close> field through it.
\<close>

type_synonym ptr = "nat list"

fun nodeAt :: "JSONNode \<Rightarrow> ptr \<Rightarrow> JSONNode option" where
  "nodeAt node [] = Some node"
| "nodeAt (JSONNode k v cs e d a) (i # p) = (if i < length cs then nodeAt (cs ! i) p else None)"

fun setExpanded :: "JSONNode \<Rightarrow> ptr \<Rightarrow> bool \<Rightarrow> JSONNode" where
  "setExpanded (JSONNode k v cs e d a) [] b = JSONNode k v cs b d a"
| "setExpanded (JSONNode k v cs e d a) (i # p) b =
     (if i < length cs then JSONNode k v (cs[i := setExpanded (cs ! i) p b]) e d a
      else JSONNode k v cs e d a)"

text \<open>
  \<open>collectVisible\<close> appends to \<open>*nodes\<close>; the slice is passed and returned, and \<open>p\<close> is
  the pointer to \<open>node\<close>. \<open>collectVisible_loop\<close> is the \<open>for _, child := range
  node.Children\<close>, at child index \<open>i\<close>.
\<close>

fun collectVisible :: "JSONNode \<Rightarrow> ptr \<Rightarrow> ptr list \<Rightarrow> ptr list"
  and collectVisible_loop :: "JSONNode list \<Rightarrow> ptr \<Rightarrow> nat \<Rightarrow> ptr list \<Rightarrow> ptr list"
where
  "collectVisible (JSONNode k v cs e d a) p nodes =
     (let nodes1 = nodes @ [p]
      in if e then collectVisible_loop cs p 0 nodes1 else nodes1)"
| "collectVisible_loop [] p i nodes = nodes"
| "collectVisible_loop (child # rest) p i nodes =
     collectVisible_loop rest p (Suc i) (collectVisible child (p @ [i]) nodes)"

definition visibleNodes :: "JSONViewer \<Rightarrow> ptr list" where
  "visibleNodes j = (case jv_root j of None \<Rightarrow> [] | Some rootNode \<Rightarrow> collectVisible rootNode [] [])"

definition ensureVisible :: "JSONViewer \<Rightarrow> JSONViewer" where
  "ensureVisible j =
     (let viewHeight = jv_height j - 2;
          j1 = (if jv_cursor j < jv_offset j then j\<lparr>jv_offset := jv_cursor j\<rparr> else j);
          j2 = (if jv_cursor j1 \<ge> jv_offset j1 + viewHeight
                then j1\<lparr>jv_offset := jv_cursor j1 - viewHeight + 1\<rparr> else j1)
      in j2)"

text \<open>
  \<open>node := visible[j.cursor]\<close> followed by a read of the node: the index may panic, and
  the pointer is looked up in the tree of the viewer.
\<close>

definition visibleAt :: "JSONViewer \<Rightarrow> ptr list \<Rightarrow> int \<Rightarrow> panic + (ptr \<times> JSONNode)" where
  "visibleAt j visible i =
     (case index visible i of
        Inl p \<Rightarrow> Inl p
      | Inr q \<Rightarrow>
          (case jv_root j of
             None \<Rightarrow> Inl NilDereference
           | Some rootNode \<Rightarrow>
               (case nodeAt rootNode q of
                  None \<Rightarrow> Inl NilDereference
                | Some node \<Rightarrow> Inr (q, node))))"

definition storeExpanded :: "JSONViewer \<Rightarrow> ptr \<Rightarrow> bool \<Rightarrow> JSONViewer" where
  "storeExpanded j q b = j\<lparr>jv_root := map_option (\<lambda>rootNode. setExpanded rootNode q b) (jv_root j)\<rparr>"

text \<open>\<open>Update\<close> of the viewer. The command it returns is always \<open>nil\<close> and is left out.\<close>

definition JSONViewer_Update :: "JSONViewer \<Rightarrow> Msg \<Rightarrow> panic + JSONViewer" where
  "JSONViewer_Update j msg =
     (case msg of
        JSONLoadedMsg mPath mRoot mErr \<Rightarrow>
          if mPath = jv_path j
          then Inr (j\<lparr>jv_root := mRoot, jv_cursor := 0, jv_offset := 0, jv_err := mErr\<rparr>)
          else Inr j
      | KeyMsg k \<Rightarrow>
          if \<not> jv_focused j then Inr j
          else
            let visible = visibleNodes j in
            if k = ''j'' \<or> k = ''down'' then
              (if jv_cursor j < int (length visible) - 1
               then Inr (ensureVisible (j\<lparr>jv_cursor := jv_cursor j + 1\<rparr>)) else Inr j)
            else if k = ''k'' \<or> k = ''up'' then
              (if jv_cursor j > 0
               then Inr (ensureVisible (j\<lparr>jv_cursor := jv_cursor j - 1\<rparr>)) else Inr j)
            else if k = ''enter'' \<or> k = ''l'' \<or> k = ''right'' then
              (if jv_cursor j < int (length visible) then
                 (case visibleAt j visible (jv_cursor j) of
                    Inl p \<Rightarrow> Inl p
                  | Inr (q, node) \<Rightarrow>
                      if length (Children node) > 0
                      then Inr (storeExpanded j q (\<not> Expanded node)) else Inr j)
               else Inr j)
            else if k = ''h'' \<or> k = ''left'' then
              (if jv_cursor j < int (length visible) then
                 (case visibleAt j visible (jv_cursor j) of
                    Inl p \<Rightarrow> Inl p
                  | Inr (q, node) \<Rightarrow>
                      if Expanded node \<and> length (Children node) > 0
                      then Inr (storeExpanded j q False) else Inr j)
               else Inr j)
            else if k = ''d'' \<or> k = ''ctrl+d'' then
              (let j1 = j\<lparr>jv_cursor := jv_cursor j + quo (jv_height j) 2\<rparr>;
                   j2 = (if jv_cursor j1 \<ge> int (length visible)
                         then j1\<lparr>jv_cursor := int (length visible) - 1\<rparr> else j1)
               in Inr (ensureVisible j2))
            else if k = ''u'' \<or> k = ''ctrl+u'' then
              (let j1 = j\<lparr>jv_cursor := jv_cursor j - quo (jv_height j) 2\<rparr>;
                   j2 = (if jv_cursor j1 < 0 then j1\<lparr>jv_cursor := 0\<rparr> else j1)
               in Inr (ensureVisible j2))
            else if k = ''g'' then Inr (j\<lparr>jv_cursor := 0, jv_offset := 0\<rparr>)
            else if k = ''G'' then
              Inr (ensureVisible (j\<lparr>jv_cursor := int (length visible) - 1\<rparr>))
            else Inr j
      | _ \<Rightarrow> Inr j)"

text \<open>A run of messages through \<open>Update\<close>, in arrival order; a panic ends the run.\<close>

fun JSONViewer_Updates :: "JSONViewer \<Rightarrow> Msg list \<Rightarrow> panic + JSONViewer" where
  "JSONViewer_Updates j [] = Inr j"
| "JSONViewer_Updates j (m # ms) =
     (case JSONViewer_Update j m of Inl p \<Rightarrow> Inl p | Inr j1 \<Rightarrow> JSONViewer_Updates j1 ms)"

definition JSONViewer_SetSize :: "JSONViewer \<Rightarrow> int \<Rightarrow> int \<Rightarrow> JSONViewer" where
  "JSONViewer_SetSize j w h = j\<lparr>jv_width := w, jv_height := h\<rparr>"

definition JSONViewer_SetFocused :: "JSONViewer \<Rightarrow> bool \<Rightarrow> JSONViewer" where
  "JSONViewer_SetFocused j focused = j\<lparr>jv_focused := focused\<rparr>"

definition JSONViewer_CanView :: "StdLib \<Rightarrow> string \<Rightarrow> bool" where
  "JSONViewer_CanView lib path = (let ext = ToLower lib (Ext path) in ext = ''.json'')"

text \<open>
  \<open>Load\<close> stores the path and returns the command; the command reads the file, parses
  it, builds the tree and expands its root.
\<close>

definition JSONViewer_Load_cmd :: "string \<Rightarrow> Cmd" where
  "JSONViewer_Load_cmd path rd =
     (case ReadFile rd path of
        (content, Some err) \<Rightarrow> JSONLoadedMsg path None (Some err)
      | (content, None) \<Rightarrow>
          (case Unmarshal rd content of
             Inl err \<Rightarrow> JSONLoadedMsg path None (Some err)
           | Inr data \<Rightarrow>
               (case buildTree (mapRank rd) '''' data 0 of
                  JSONNode k v cs e d a \<Rightarrow> JSONLoadedMsg path (Some (JSONNode k v cs True d a)) None)))"

definition JSONViewer_Load :: "JSONViewer \<Rightarrow> string \<Rightarrow> JSONViewer \<times> Cmd" where
  "JSONViewer_Load j path = (j\<lparr>jv_path := path\<rparr>, JSONViewer_Load_cmd path)"

section \<open>The text and markdown viewers (viewer.go, viewer_markdown.go)\<close>

record TextViewer =
  tv_width :: int
  tv_height :: int
  tv_focused :: bool
  tv_path :: string
  tv_content :: string
  tv_lines :: "string list"
  tv_offset :: int
  tv_err :: error

definition NewTextViewer :: TextViewer where
  "NewTextViewer =
     \<lparr>tv_width = 0, tv_height = 0, tv_focused = False, tv_path = '''', tv_content = '''',
      tv_lines = [], tv_offset = 0, tv_err = None\<rparr>"

definition TextViewer_scroll :: "TextViewer \<Rightarrow> int \<Rightarrow> TextViewer" where
  "TextViewer_scroll t delta =
     (let t1 = t\<lparr>tv_offset := tv_offset t + delta\<rparr>;
          t2 = (if tv_offset t1 < 0 then t1\<lparr>tv_offset := 0\<rparr> else t1);
          maxOffset = int (length (tv_lines t2)) - tv_height t2 + 2;
          maxOffset = (if maxOffset < 0 then 0 else maxOffset)
      in if tv_offset t2 > maxOffset then t2\<lparr>tv_offset := maxOffset\<rparr> else t2)"

text \<open>In \<open>-t.height / 2\<close> the minus binds first: the quotient of \<open>-t.height\<close> by 2.\<close>

definition TextViewer_Update :: "TextViewer \<Rightarrow> Msg \<Rightarrow> TextViewer" where
  "TextViewer_Update t msg =
     (case msg of
        FileLoadedMsg mPath mContent mErr \<Rightarrow>
          if mPath = tv_path t
          then t\<lparr>tv_content := mContent, tv_lines := Split_nl mContent, tv_offset := 0,
                 tv_err := mErr\<rparr>
          else t
      | KeyMsg k \<Rightarrow>
          if \<not> tv_focused t then t
          else if k = ''j'' \<or> k = ''down'' then TextViewer_scroll t 1
          else if k = ''k'' \<or> k = ''up'' then TextViewer_scroll t (- 1)
          else if k = ''d'' \<or> k = ''ctrl+d'' then TextViewer_scroll t (quo (tv_height t) 2)
          else if k = ''u'' \<or> k = ''ctrl+u'' then TextViewer_scroll t (quo (- tv_height t) 2)
          else if k = ''g'' then t\<lparr>tv_offset := 0\<rparr>
          else if k = ''G'' then
            t\<lparr>tv_offset := max 0 (int (length (tv_lines t)) - tv_height t + 2)\<rparr>
          else t
      | _ \<Rightarrow> t)"

definition TextViewer_SetSize :: "TextViewer \<Rightarrow> int \<Rightarrow> int \<Rightarrow> TextViewer" where
  "TextViewer_SetSize t w h = t\<lparr>tv_width := w, tv_height := h\<rparr>"

definition TextViewer_SetFocused :: "TextViewer \<Rightarrow> bool \<Rightarrow> TextViewer" where
  "TextViewer_SetFocused t focused = t\<lparr>tv_focused := focused\<rparr>"

definition TextViewer_CanView :: "string \<Rightarrow> bool" where
  "TextViewer_CanView path = True"

definition TextViewer_Load_cmd :: "string \<Rightarrow> Cmd" where
  "TextViewer_Load_cmd path rd =
     (case ReadFile rd path of (content, err) \<Rightarrow> FileLoadedMsg path content err)"

definition TextViewer_Load :: "TextViewer \<Rightarrow> string \<Rightarrow> TextViewer \<times> Cmd" where
  "TextViewer_Load t path = (t\<lparr>tv_path := path\<rparr>, TextViewer_Load_cmd path)"

record MarkdownViewer =
  mv_width :: int
  mv_height :: int
  mv_focused :: bool
  mv_path :: string
  mv_rendered :: string
  mv_lines :: "string list"
  mv_offset :: int
  mv_err :: error

definition NewMarkdownViewer :: MarkdownViewer where
  "NewMarkdownViewer =
     \<lparr>mv_width = 0, mv_height = 0, mv_focused = False, mv_path = '''', mv_rendered = '''',
      mv_lines = [], mv_offset = 0, mv_err = None\<rparr>"

definition MarkdownViewer_scroll :: "MarkdownViewer \<Rightarrow> int \<Rightarrow> MarkdownViewer" where
  "MarkdownViewer_scroll m delta =
     (let m1 = m\<lparr>mv_offset := mv_offset m + delta\<rparr>;
          m2 = (if mv_offset m1 < 0 then m1\<lparr>mv_offset := 0\<rparr> else m1);
          maxOffset = int (length (mv_lines m2)) - mv_height m2 + 2;
          maxOffset = (if maxOffset < 0 then 0 else maxOffset)
      in if mv_offset m2 > maxOffset then m2\<lparr>mv_offset := maxOffset\<rparr> else m2)"

definition MarkdownViewer_Update :: "MarkdownViewer \<Rightarrow> Msg \<Rightarrow> MarkdownViewer" where
  "MarkdownViewer_Update m msg =
     (case msg of
        MarkdownLoadedMsg mPath mContent mErr \<Rightarrow>
          if mPath = mv_path m
          then m\<lparr>mv_rendered := mContent, mv_lines := Split_nl mContent, mv_offset := 0,
                 mv_err := mErr\<rparr>
          else m
      | KeyMsg k \<Rightarrow>
          if \<not> mv_focused m then m
          else if k = ''j'' \<or> k = ''down'' then MarkdownViewer_scroll m 1
          else if k = ''k'' \<or> k = ''up'' then MarkdownViewer_scroll m (- 1)
          else if k = ''d'' \<or> k = ''ctrl+d'' then MarkdownViewer_scroll m (quo (mv_height m) 2)
          else if k = ''u'' \<or> k = ''ctrl+u'' then MarkdownViewer_scroll m (quo (- mv_height m) 2)
          else if k = ''g'' then m\<lparr>mv_offset := 0\<rparr>
          else if k = ''G'' then
            m\<lparr>mv_offset := max 0 (int (length (mv_lines m)) - mv_height m + 2)\<rparr>
          else m
      | _ \<Rightarrow> m)"

definition MarkdownViewer_SetSize :: "MarkdownViewer \<Rightarrow> int \<Rightarrow> int \<Rightarrow> MarkdownViewer" where
  "MarkdownViewer_SetSize m w h = m\<lparr>mv_width := w, mv_height := h\<rparr>"

definition MarkdownViewer_SetFocused :: "MarkdownViewer \<Rightarrow> bool \<Rightarrow> MarkdownViewer" where
  "MarkdownViewer_SetFocused m focused = m\<lparr>mv_focused := focused\<rparr>"

definition MarkdownViewer_CanView :: "StdLib \<Rightarrow> string \<Rightarrow> bool" where
  "MarkdownViewer_CanView lib path =
     (let ext = ToLower lib (Ext path) in ext = ''.md'' \<or> ext = ''.markdown'')"

definition MarkdownViewer_Load_cmd :: "string \<Rightarrow> Cmd" where
  "MarkdownViewer_Load_cmd path rd =
     (case ReadFile rd path of
        (content, Some err) \<Rightarrow> MarkdownLoadedMsg path '''' (Some err)
      | (content, None) \<Rightarrow>
          (case Render rd content of
             Inl err \<Rightarrow> MarkdownLoadedMsg path '''' (Some err)
           | Inr rendered \<Rightarrow> MarkdownLoadedMsg path rendered None))"

definition MarkdownViewer_Load :: "MarkdownViewer \<Rightarrow> string \<Rightarrow> MarkdownViewer \<times> Cmd" where
  "MarkdownViewer_Load m path = (m\<lparr>mv_path := path\<rparr>, MarkdownViewer_Load_cmd path)"

section \<open>The viewer router (ViewerRouter)\<close>

text \<open>
  The router holds pointers to one markdown viewer, one JSON viewer and one text
  viewer. A \<open>Viewer\<close> value is modelled by the name of the viewer it points to, and the
  three viewers are fields of the router; \<open>vr_current\<close> is \<open>None\<close> for \<open>nil\<close>.
\<close>

datatype Viewer = mdV | jsonV | textV

record ViewerRouter =
  vr_md :: MarkdownViewer
  vr_jsonv :: JSONViewer
  vr_text :: TextViewer
  vr_viewers :: "Viewer list"
  vr_current :: "Viewer option"
  vr_width :: int
  vr_height :: int
  vr_focused :: bool

definition NewViewerRouter :: ViewerRouter where
  "NewViewerRouter =
     \<lparr>vr_md = NewMarkdownViewer, vr_jsonv = NewJSONViewer, vr_text = NewTextViewer,
      vr_viewers = [mdV, jsonV, textV], vr_current = Some textV,
      vr_width = 0, vr_height = 0, vr_focused = False\<rparr>"

text \<open>The methods of the \<open>Viewer\<close> interface, dispatched on the viewer pointed to.\<close>

fun Viewer_CanView :: "StdLib \<Rightarrow> Viewer \<Rightarrow> string \<Rightarrow> bool" where
  "Viewer_CanView lib mdV path = MarkdownViewer_CanView lib path"
| "Viewer_CanView lib jsonV path = JSONViewer_CanView lib path"
| "Viewer_CanView lib textV path = TextViewer_CanView path"

fun Viewer_SetSize :: "ViewerRouter \<Rightarrow> Viewer \<Rightarrow> int \<Rightarrow> int \<Rightarrow> ViewerRouter" where
  "Viewer_SetSize r mdV w h = r\<lparr>vr_md := MarkdownViewer_SetSize (vr_md r) w h\<rparr>"
| "Viewer_SetSize r jsonV w h = r\<lparr>vr_jsonv := JSONViewer_SetSize (vr_jsonv r) w h\<rparr>"
| "Viewer_SetSize r textV w h = r\<lparr>vr_text := TextViewer_SetSize (vr_text r) w h\<rparr>"

fun Viewer_SetFocused :: "ViewerRouter \<Rightarrow> Viewer \<Rightarrow> bool \<Rightarrow> ViewerRouter" where
  "Viewer_SetFocused r mdV f = r\<lparr>vr_md := MarkdownViewer_SetFocused (vr_md r) f\<rparr>"
| "Viewer_SetFocused r jsonV f = r\<lparr>vr_jsonv := JSONViewer_SetFocused (vr_jsonv r) f\<rparr>"
| "Viewer_SetFocused r textV f = r\<lparr>vr_text := TextViewer_SetFocused (vr_text r) f\<rparr>"

fun Viewer_Load :: "ViewerRouter \<Rightarrow> Viewer \<Rightarrow> string \<Rightarrow> ViewerRouter \<times> Cmd" where
  "Viewer_Load r mdV path =
     (case MarkdownViewer_Load (vr_md r) path of (m, cmd) \<Rightarrow> (r\<lparr>vr_md := m\<rparr>, cmd))"
| "Viewer_Load r jsonV path =
     (case JSONViewer_Load (vr_jsonv r) path of (j, cmd) \<Rightarrow> (r\<lparr>vr_jsonv := j\<rparr>, cmd))"
| "Viewer_Load r textV path =
     (case TextViewer_Load (vr_text r) path of (t, cmd) \<Rightarrow> (r\<lparr>vr_text := t\<rparr>, cmd))"

fun Viewer_Update :: "ViewerRouter \<Rightarrow> Viewer \<Rightarrow> Msg \<Rightarrow> panic + ViewerRouter" where
  "Viewer_Update r mdV msg = Inr (r\<lparr>vr_md := MarkdownViewer_Update (vr_md r) msg\<rparr>)"
| "Viewer_Update r jsonV msg =
     (case JSONViewer_Update (vr_jsonv r) msg of
        Inl p \<Rightarrow> Inl p
      | Inr j \<Rightarrow> Inr (r\<lparr>vr_jsonv := j\<rparr>))"
| "Viewer_Update r textV msg = Inr (r\<lparr>vr_text := TextViewer_Update (vr_text r) msg\<rparr>)"

text \<open>\<open>Update\<close> of the router; the command of the current viewer is always \<open>nil\<close>.\<close>

definition ViewerRouter_Update :: "ViewerRouter \<Rightarrow> Msg \<Rightarrow> panic + ViewerRouter" where
  "ViewerRouter_Update r msg =
     (case vr_current r of
        None \<Rightarrow> Inr r
      | Some v \<Rightarrow> Viewer_Update r v msg)"

definition ViewerRouter_SetFocused :: "ViewerRouter \<Rightarrow> bool \<Rightarrow> ViewerRouter" where
  "ViewerRouter_SetFocused r focused =
     (let r1 = r\<lparr>vr_focused := focused\<rparr>
      in case vr_current r1 of
           None \<Rightarrow> r1
         | Some v \<Rightarrow> Viewer_SetFocused r1 v focused)"

text \<open>
  \<open>OpenFile\<close>. \<open>OpenFile_loop\<close> is the \<open>for _, v := range r.viewers\<close>, which returns
  from \<open>OpenFile\<close> at the first viewer that can view the path; \<open>None\<close> means the loop ran
  to its end. After the loop the code takes \<open>r.viewers[0]\<close>.
\<close>

fun OpenFile_loop ::
  "StdLib \<Rightarrow> ViewerRouter \<Rightarrow> string \<Rightarrow> Viewer list \<Rightarrow> (ViewerRouter \<times> Cmd) option" where
  "OpenFile_loop lib r path [] = None"
| "OpenFile_loop lib r path (v # vs) =
     (if Viewer_CanView lib v path then
        let r1 = r\<lparr>vr_current := Some v\<rparr>;
            r2 = Viewer_SetSize r1 v (vr_width r1) (vr_height r1);
            r3 = Viewer_SetFocused r2 v (vr_focused r2)
        in Some (Viewer_Load r3 v path)
      else OpenFile_loop lib r path vs)"

definition OpenFile :: "StdLib \<Rightarrow> ViewerRouter \<Rightarrow> string \<Rightarrow> panic + (ViewerRouter \<times> Cmd)" where
  "OpenFile lib r path =
     (case OpenFile_loop lib r path (vr_viewers r) of
        Some res \<Rightarrow> Inr res
      | None \<Rightarrow>
          (case index (vr_viewers r) 0 of
             Inl p \<Rightarrow> Inl p
           | Inr v \<Rightarrow> Inr (Viewer_Load (r\<lparr>vr_current := Some v\<rparr>) v path)))"

section \<open>The editor and the application (editor.go, App)\<close>

text \<open>
  The \<open>textarea\<close> widget is a library component; of its state the model keeps the text
  and the focus flag, which \<open>Focus\<close> and \<open>Blur\<close> set.
\<close>

record textarea =
  ta_value :: string
  ta_focus :: bool

record Editor =
  ed_width :: int
  ed_height :: int
  ed_focused :: bool
  ed_path :: string
  ed_textarea :: textarea
  ed_modified :: bool
  ed_err :: error
  ed_status :: string

definition Editor_SetFocused :: "Editor \<Rightarrow> bool \<Rightarrow> Editor" where
  "Editor_SetFocused e focused =
     (let e1 = e\<lparr>ed_focused := focused\<rparr>
      in if focused then e1\<lparr>ed_textarea := (ed_textarea e1)\<lparr>ta_focus := True\<rparr>\<rparr>
         else e1\<lparr>ed_textarea := (ed_textarea e1)\<lparr>ta_focus := False\<rparr>\<rparr>)"

datatype Focus = FocusNav | FocusViewer

datatype Mode = ModeNav | ModeViewer | ModeEditor

record App =
  app_width :: int
  app_height :: int
  app_ready :: bool
  app_focus :: Focus
  app_mode :: Mode
  app_nav :: NavPane
  app_viewer :: ViewerRouter
  app_editor :: Editor
  app_editPath :: string

text \<open>
  \<open>App.Update\<close> on the messages that are not typed or sent by the terminal: a file
  selected, the completions of the loads, and the completions of the editor. The
  result is the application and the commands handed to \<open>tea.Batch\<close>. The cases for
  \<open>tea.KeyMsg\<close>, \<open>tea.WindowSizeMsg\<close> and \<open>EditorOpenMsg\<close> reach into the text widget
  and are left unspecified.
\<close>

definition App_forward :: "App \<Rightarrow> Msg \<Rightarrow> panic + (App \<times> Cmd list)" where
  "App_forward a msg =
     (case ViewerRouter_Update (app_viewer a) msg of
        Inl p \<Rightarrow> Inl p
      | Inr r \<Rightarrow> Inr (a\<lparr>app_viewer := r\<rparr>, []))"

fun App_Update :: "StdLib \<Rightarrow> App \<Rightarrow> Msg \<Rightarrow> panic + (App \<times> Cmd list)" where
  "App_Update lib a (FileSelectedMsg mPath) =
     (let a1 = a\<lparr>app_editPath := mPath\<rparr>
      in case OpenFile lib (app_viewer a1) mPath of
           Inl p \<Rightarrow> Inl p
         | Inr (r, cmd) \<Rightarrow> Inr (a1\<lparr>app_viewer := r\<rparr>, [cmd]))"
| "App_Update lib a (FileLoadedMsg mPath mContent mErr) =
     App_forward a (FileLoadedMsg mPath mContent mErr)"
| "App_Update lib a (MarkdownLoadedMsg mPath mContent mErr) =
     App_forward a (MarkdownLoadedMsg mPath mContent mErr)"
| "App_Update lib a (JSONLoadedMsg mPath mRoot mErr) =
     App_forward a (JSONLoadedMsg mPath mRoot mErr)"
| "App_Update lib a (EditorSavedMsg mPath mErr) =
     (let a1 = a\<lparr>app_mode := ModeViewer\<rparr>;
          a2 = a1\<lparr>app_editor := Editor_SetFocused (app_editor a1) False\<rparr>;
          a3 = a2\<lparr>app_viewer := ViewerRouter_SetFocused (app_viewer a2) True\<rparr>;
          a4 = a3\<lparr>app_focus := FocusViewer\<rparr>
      in if mErr = None then
           (case OpenFile lib (app_viewer a4) mPath of
              Inl p \<Rightarrow> Inl p
            | Inr (r, cmd) \<Rightarrow> Inr (a4\<lparr>app_viewer := r\<rparr>, [cmd]))
         else Inr (a4, []))"
| "App_Update lib a (EditorCancelledMsg mPath) =
     (let a1 = a\<lparr>app_mode := ModeViewer\<rparr>;
          a2 = a1\<lparr>app_editor := Editor_SetFocused (app_editor a1) False\<rparr>;
          a3 = a2\<lparr>app_viewer := ViewerRouter_SetFocused (app_viewer a2) True\<rparr>;
          a4 = a3\<lparr>app_focus := FocusViewer\<rparr>
      in Inr (a4, []))"

text \<open>What the user sees of the editor and of the current viewer: their error fields.\<close>

definition shownErrors :: "App \<Rightarrow> error \<times> string \<times> error \<times> error \<times> error" where
  "shownErrors a =
     (ed_err (app_editor a), ed_status (app_editor a),
      tv_err (vr_text (app_viewer a)), mv_err (vr_md (app_viewer a)),
      jv_err (vr_jsonv (app_viewer a)))"

section \<open>Notions used to state the properties of the navigation pane\<close>

text \<open>The height of the viewport that \<open>adjustOffset\<close> works with.\<close>

definition visibleHeight :: "NavPane \<Rightarrow> int" where
  "visibleHeight n = max 1 (nav_height n - 2)"

text \<open>
  The viewport invariants: the cursor is an index of the list and lies inside the
  viewport, and the offset leaves no dead scroll past the end.
\<close>

definition offsetOK :: "NavPane \<Rightarrow> bool" where
  "offsetOK n =
     (0 \<le> nav_offset n \<and> nav_offset n \<le> max 0 (int (length (nav_entries n)) - visibleHeight n))"

definition viewportOK :: "NavPane \<Rightarrow> bool" where
  "viewportOK n =
     (0 \<le> nav_cursor n \<and> nav_cursor n < int (length (nav_entries n))
      \<and> nav_offset n \<le> nav_cursor n \<and> nav_cursor n < nav_offset n + visibleHeight n
      \<and> offsetOK n)"

text \<open>The keys of the navigation pane that only move the cursor.\<close>

definition isMoveKey :: "Msg \<Rightarrow> bool" where
  "isMoveKey msg = (msg \<in> set (map KeyMsg [''j'', ''down'', ''k'', ''up'', ''g'', ''G'']))"

text \<open>
  A directory entry is listed unless its name starts with a dot and is not \<open>.git\<close>; the
  entry \<open>loadDir\<close> appends for a listed file; and the order of a listing: \<open>a\<close> may stand
  before \<open>b\<close> when a file never precedes a directory and entries of one kind are in
  the order of their lower-cased names.
\<close>

definition listed :: "DirEntry \<Rightarrow> bool" where
  "listed f = (\<not> (HasPrefix (de_Name f) ''.'' \<and> de_Name f \<noteq> ''.git''))"

definition mkEntry :: "StdLib \<Rightarrow> string \<Rightarrow> int \<Rightarrow> DirEntry \<Rightarrow> FileEntry" where
  "mkEntry lib dir depth f =
     \<lparr>fe_Name = de_Name f, fe_Path = Join lib dir (de_Name f), fe_IsDir = de_IsDir f,
      fe_Expanded = False, fe_Depth = depth\<rparr>"

definition mayPrecede :: "StdLib \<Rightarrow> FileEntry \<Rightarrow> FileEntry \<Rightarrow> bool" where
  "mayPrecede lib a b =
     ((fe_IsDir a \<or> \<not> fe_IsDir b)
      \<and> (fe_IsDir a = fe_IsDir b \<longrightarrow> ToLower lib (fe_Name a) \<le> ToLower lib (fe_Name b)))"

text \<open>
  What is used of \<open>strings.ToLower\<close> in the examples: on a string whose bytes are all
  ASCII (below \<open>0x80\<close>) it moves \<open>'A'..'Z'\<close> to \<open>'a'..'z'\<close> (adding \<open>'a' - 'A' = 32\<close>
  sets bit 5, which is clear in that range) and keeps every other byte. \<open>lowersASCII\<close>
  says so of a function and leaves its value on every other string open;
  \<open>asciiToLower\<close> is the function of the example libraries, whose names are all ASCII.
\<close>

definition asciiLowerByte :: "char \<Rightarrow> char" where
  "asciiLowerByte c =
     (if CHR ''A'' \<le> c \<and> c \<le> CHR ''Z''
      then (case c of Char b0 b1 b2 b3 b4 b5 b6 b7 \<Rightarrow> Char b0 b1 b2 b3 b4 True b6 b7)
      else c)"

definition asciiToLower :: "string \<Rightarrow> string" where
  "asciiToLower s = map asciiLowerByte s"

definition isASCII :: "string \<Rightarrow> bool" where
  "isASCII s = list_all (\<lambda>c. c < CHR 0x80) s"

definition lowersASCII :: "(string \<Rightarrow> string) \<Rightarrow> bool" where
  "lowersASCII lower = (\<forall>s. isASCII s \<longrightarrow> lower s = asciiToLower s)"

text \<open>The entries of the scenario: \<open>b.txt\<close>, \<open>A.txt\<close> and the directory \<open>sub\<close>.\<close>

definition scenarioFiles :: "DirEntry list" where
  "scenarioFiles =
     [\<lparr>de_Name = ''b.txt'', de_IsDir = False\<rparr>, \<lparr>de_Name = ''A.txt'', de_IsDir = False\<rparr>,
      \<lparr>de_Name = ''sub'', de_IsDir = True\<rparr>]"

text \<open>A library in which \<open>/work\<close> is the directory of the scenario.\<close>

definition scenarioFS :: StdLib where
  "scenarioFS =
     \<lparr>ReadDir = (\<lambda>d. if d = ''/work''
                     then Inr scenarioFiles
                     else Inl ''open: no such file or directory''),
      Join = (\<lambda>d name. d @ ''/'' @ name),
      Dir = (\<lambda>p. ''/''),
      ToLower = asciiToLower\<rparr>"

text \<open>A directory with hidden entries, and a path that cannot be read.\<close>

definition repoFiles :: "DirEntry list" where
  "repoFiles =
     [\<lparr>de_Name = ''.env'', de_IsDir = False\<rparr>, \<lparr>de_Name = ''b.txt'', de_IsDir = False\<rparr>,
      \<lparr>de_Name = ''.git'', de_IsDir = True\<rparr>, \<lparr>de_Name = ''A.txt'', de_IsDir = False\<rparr>,
      \<lparr>de_Name = ''sub'', de_IsDir = True\<rparr>, \<lparr>de_Name = ''Zed'', de_IsDir = True\<rparr>]"

definition repoFS :: StdLib where
  "repoFS =
     \<lparr>ReadDir = (\<lambda>d. if d = ''/repo'' then Inr repoFiles
                     else Inl ''open: permission denied''),
      Join = (\<lambda>d name. d @ ''/'' @ name),
      Dir = (\<lambda>p. ''/''),
      ToLower = asciiToLower\<rparr>"

text \<open>
  An empty directory \<open>/srv/.cache\<close> below \<open>/srv\<close>, and the pane opened on it, sized and
  focused.
\<close>

definition hiddenDirFS :: StdLib where
  "hiddenDirFS =
     \<lparr>ReadDir = (\<lambda>d. if d = ''/srv/.cache'' then Inr []
                     else if d = ''/srv'' then Inr [\<lparr>de_Name = ''.cache'', de_IsDir = True\<rparr>,
                                                   \<lparr>de_Name = ''www'', de_IsDir = True\<rparr>]
                     else Inl ''open: no such file or directory''),
      Join = (\<lambda>d name. d @ ''/'' @ name),
      Dir = (\<lambda>p. if p = ''/srv/.cache'' then ''/srv'' else ''/''),
      ToLower = asciiToLower\<rparr>"

definition emptyPane :: NavPane where
  "emptyPane = (NewNavPane hiddenDirFS ''/srv/.cache'')\<lparr>nav_height := 24, nav_focused := True\<rparr>"

section \<open>Notions used to state the properties of the JSON viewer\<close>

text \<open>
  Every node of a tree in depth-first pre-order, a node before its children and the
  children in their order; \<open>p\<close> is the pointer to the node.
\<close>

fun allNodes :: "JSONNode \<Rightarrow> ptr \<Rightarrow> ptr list"
  and allNodes_list :: "JSONNode list \<Rightarrow> ptr \<Rightarrow> nat \<Rightarrow> ptr list"
where
  "allNodes (JSONNode k v cs e d a) p = p # allNodes_list cs p 0"
| "allNodes_list [] p i = []"
| "allNodes_list (child # rest) p i = allNodes child (p @ [i]) @ allNodes_list rest p (Suc i)"

text \<open>
  The ancestors of the node at \<open>q\<close> are the nodes at the proper prefixes of \<open>q\<close>; a node
  is shown when each of them is a node of the tree with \<open>Expanded\<close> set.
\<close>

definition ancestors :: "ptr \<Rightarrow> ptr list" where
  "ancestors q = map (\<lambda>n. take n q) [0..<length q]"

definition expandedAt :: "JSONNode \<Rightarrow> ptr \<Rightarrow> bool" where
  "expandedAt t r = (case nodeAt t r of Some node \<Rightarrow> Expanded node | None \<Rightarrow> False)"

definition allAncestorsExpanded :: "JSONNode \<Rightarrow> ptr \<Rightarrow> bool" where
  "allAncestorsExpanded t q = list_all (expandedAt t) (ancestors q)"

text \<open>The same, following the pointer down from the root; used in the proofs.\<close>

fun chainExpanded :: "JSONNode \<Rightarrow> ptr \<Rightarrow> bool" where
  "chainExpanded node [] = True"
| "chainExpanded (JSONNode k v cs e d a) (i # p) = (e \<and> i < length cs \<and> chainExpanded (cs ! i) p)"

fun visChildren :: "JSONNode list \<Rightarrow> nat \<Rightarrow> ptr list" where
  "visChildren [] i = []"
| "visChildren (c # cs) i =
     map ((#) i) (filter (chainExpanded c) (allNodes c [])) @ visChildren cs (Suc i)"

text \<open>A tree with every \<open>Expanded\<close> flag cleared: what expanding and collapsing keep.\<close>

fun eraseExpanded :: "JSONNode \<Rightarrow> JSONNode" where
  "eraseExpanded (JSONNode k v cs e d a) = JSONNode k v (map eraseExpanded cs) False d a"

definition isKeyMsg :: "Msg \<Rightarrow> bool" where
  "isKeyMsg msg = (case msg of KeyMsg k \<Rightarrow> True | _ \<Rightarrow> False)"

definition jsonKeys :: "string list" where
  "jsonKeys = [''j'', ''down'', ''k'', ''up'', ''enter'', ''l'', ''right'', ''h'', ''left'',
               ''d'', ''ctrl+d'', ''u'', ''ctrl+u'', ''g'', ''G'']"

text \<open>
  Selecting a JSON file in a viewer of 80 by \<open>h\<close> cells that has the focus, and
  delivering the completion of the load.
\<close>

definition openJSON :: "Reader \<Rightarrow> int \<Rightarrow> string \<Rightarrow> panic + JSONViewer" where
  "openJSON rd h path =
     (case JSONViewer_Load (JSONViewer_SetFocused (JSONViewer_SetSize NewJSONViewer 80 h) True) path of
        (j, cmd) \<Rightarrow> JSONViewer_Update j (cmd rd))"

text \<open>
  Example documents: \<open>{"a": [1, 2], "b": 3}\<close>, enumerated by the runtime with \<open>a\<close>
  first or with \<open>b\<close> first, the array of nine \<open>null\<close>s, and the number \<open>42\<close>.
\<close>

definition docAB :: jvalue where
  "docAB = JObject [(''a'', JArray [JNumber 1, JNumber 2]), (''b'', JNumber 3)]"

definition rankAB :: "(string \<times> jvalue) list \<Rightarrow> string \<Rightarrow> nat" where
  "rankAB v k = (if k = ''a'' then 0 else 1)"

definition rankBA :: "(string \<times> jvalue) list \<Rightarrow> string \<Rightarrow> nat" where
  "rankBA v k = (if k = ''a'' then 1 else 0)"

definition readerOf :: "jvalue \<Rightarrow> ((string \<times> jvalue) list \<Rightarrow> string \<Rightarrow> nat) \<Rightarrow> Reader" where
  "readerOf doc rank =
     \<lparr>ReadFile = (\<lambda>p. (''(the text of the document)'', None)),
      Unmarshal = (\<lambda>s. Inr doc),
      Render = (\<lambda>s. Inr s),
      mapRank = rank\<rparr>"

definition nineNulls :: jvalue where
  "nineNulls = JArray [JNull, JNull, JNull, JNull, JNull, JNull, JNull, JNull, JNull]"

text \<open>
  The tree of \<open>{"a": [1, 2], "b": 3}\<close> as loaded, with the node \<open>a\<close> collapsed or
  expanded, in a focused viewer of 80 by 24 cells with the cursor at \<open>c\<close>.
\<close>

definition treeAB :: "bool \<Rightarrow> JSONNode" where
  "treeAB e =
     JSONNode '''' docAB
       [JSONNode ''a'' (JArray [JNumber 1, JNumber 2])
          [JSONNode ''[0]'' (JNumber 1) [] False 2 False,
           JSONNode ''[1]'' (JNumber 2) [] False 2 False] e 1 True,
        JSONNode ''b'' (JNumber 3) [] False 1 False]
       True 0 False"

definition viewerAB :: "bool \<Rightarrow> int \<Rightarrow> JSONViewer" where
  "viewerAB e c =
     \<lparr>jv_width = 80, jv_height = 24, jv_focused = True, jv_path = ''/data/ab.json'',
      jv_root = Some (treeAB e), jv_cursor = c, jv_offset = 0, jv_err = None\<rparr>"

text \<open>
  The tree of the array of nine \<open>null\<close>s as loaded (ten visible nodes), in a focused
  viewer of height \<open>h\<close> with the cursor at \<open>c\<close> and offset 0.
\<close>

definition nineTree :: JSONNode where
  "nineTree =
     (case buildTree rankAB '''' nineNulls 0 of
        JSONNode k v cs e d a \<Rightarrow> JSONNode k v cs True d a)"

definition nineViewer :: "int \<Rightarrow> int \<Rightarrow> JSONViewer" where
  "nineViewer h c =
     \<lparr>jv_width = 80, jv_height = h, jv_focused = True, jv_path = ''/data/nine.json'',
      jv_root = Some nineTree, jv_cursor = c, jv_offset = 0, jv_err = None\<rparr>"

text \<open>
  The invariant of the tree model on a subtree: a node without children is collapsed.
  \<open>allCollapsed\<close>: no node is expanded. \<open>belowRootOK\<close>: the invariant on every subtree
  below the root of the viewer.
\<close>

fun leavesCollapsed :: "JSONNode \<Rightarrow> bool" where
  "leavesCollapsed (JSONNode k v cs e d a) = ((cs = [] \<longrightarrow> \<not> e) \<and> list_all leavesCollapsed cs)"

fun allCollapsed :: "JSONNode \<Rightarrow> bool" where
  "allCollapsed (JSONNode k v cs e d a) = (\<not> e \<and> list_all allCollapsed cs)"

definition belowRootOK :: "JSONViewer \<Rightarrow> bool" where
  "belowRootOK j = (case jv_root j of None \<Rightarrow> True | Some t \<Rightarrow> list_all leavesCollapsed (Children t))"

text \<open>A file that does not parse.\<close>

definition brokenReader :: Reader where
  "brokenReader =
     \<lparr>ReadFile = (\<lambda>p. (''{'', None)),
      Unmarshal = (\<lambda>s. Inl ''unexpected end of JSON input''),
      Render = (\<lambda>s. Inr s),
      mapRank = (\<lambda>v k. 0)\<rparr>"

text \<open>A focused text viewer of height 7 holding twenty lines.\<close>

definition twentyLines :: TextViewer where
  "twentyLines =
     \<lparr>tv_width = 80, tv_height = 7, tv_focused = True, tv_path = ''/notes/long.txt'',
      tv_content = replicate 19 (CHR 0x0A), tv_lines = replicate 20 [], tv_offset = 0,
      tv_err = None\<rparr>"

section \<open>Notions used to state the properties of the router and the application\<close>

text \<open>The viewer that a router has as current after \<open>OpenFile\<close>.\<close>

definition selected :: "StdLib \<Rightarrow> ViewerRouter \<Rightarrow> string \<Rightarrow> Viewer option" where
  "selected lib r path =
     (case OpenFile lib r path of Inr (r1, cmd) \<Rightarrow> vr_current r1 | Inl p \<Rightarrow> None)"

text \<open>
  The viewer the registration order of \<open>NewViewerRouter\<close> gives a path, and the
  router and command \<open>OpenFile\<close> returns for it.
\<close>

definition dispatch :: "StdLib \<Rightarrow> string \<Rightarrow> Viewer" where
  "dispatch lib path =
     (if MarkdownViewer_CanView lib path then mdV
      else if JSONViewer_CanView lib path then jsonV else textV)"

definition opened :: "StdLib \<Rightarrow> ViewerRouter \<Rightarrow> string \<Rightarrow> ViewerRouter \<times> Cmd" where
  "opened lib r path =
     Viewer_Load
       (Viewer_SetFocused
          (Viewer_SetSize (r\<lparr>vr_current := Some (dispatch lib path)\<rparr>) (dispatch lib path)
             (vr_width r) (vr_height r))
          (dispatch lib path) (vr_focused r))
       (dispatch lib path) path"

text \<open>
  What a pane shows: the path and the loaded content (with its error) of the current
  viewer; and what a completion message delivers.
\<close>

datatype Content =
    TextContent string error
  | MarkdownContent string error
  | JSONContent "JSONNode option" error

definition shown :: "ViewerRouter \<Rightarrow> (string \<times> Content) option" where
  "shown r =
     (case vr_current r of
        None \<Rightarrow> None
      | Some mdV \<Rightarrow>
          Some (mv_path (vr_md r), MarkdownContent (mv_rendered (vr_md r)) (mv_err (vr_md r)))
      | Some jsonV \<Rightarrow>
          Some (jv_path (vr_jsonv r), JSONContent (jv_root (vr_jsonv r)) (jv_err (vr_jsonv r)))
      | Some textV \<Rightarrow>
          Some (tv_path (vr_text r), TextContent (tv_content (vr_text r)) (tv_err (vr_text r))))"

definition delivered :: "Msg \<Rightarrow> (string \<times> Content) option" where
  "delivered msg =
     (case msg of
        FileLoadedMsg p c e \<Rightarrow> Some (p, TextContent c e)
      | MarkdownLoadedMsg p c e \<Rightarrow> Some (p, MarkdownContent c e)
      | JSONLoadedMsg p t e \<Rightarrow> Some (p, JSONContent t e)
      | _ \<Rightarrow> None)"

text \<open>The path a viewer of the router waits for.\<close>

fun pathOf :: "ViewerRouter \<Rightarrow> Viewer \<Rightarrow> string" where
  "pathOf r mdV = mv_path (vr_md r)"
| "pathOf r jsonV = jv_path (vr_jsonv r)"
| "pathOf r textV = tv_path (vr_text r)"

text \<open>The application as \<open>NewApp\<close> builds it around a navigation pane.\<close>

definition NewEditor :: Editor where
  "NewEditor =
     \<lparr>ed_width = 0, ed_height = 0, ed_focused = False, ed_path = '''',
      ed_textarea = \<lparr>ta_value = '''', ta_focus = False\<rparr>,
      ed_modified = False, ed_err = None, ed_status = ''''\<rparr>"

definition NewApp :: "NavPane \<Rightarrow> App" where
  "NewApp nav =
     \<lparr>app_width = 0, app_height = 0, app_ready = False, app_focus = FocusNav, app_mode = ModeNav,
      app_nav = nav\<lparr>nav_focused := True\<rparr>, app_viewer = NewViewerRouter, app_editor = NewEditor,
      app_editPath = ''''\<rparr>"

text \<open>
  Two files and what reading them gives, \<open>/notes/a.txt\<close> and \<open>/notes/b.md\<close>, and the
  application started on the directory of the scenario.
\<close>

definition notesReader :: Reader where
  "notesReader =
     \<lparr>ReadFile = (\<lambda>p. if p = ''/notes/a.txt'' then (''alpha'', None)
                      else if p = ''/notes/b.md'' then (''# beta'', None)
                      else ('''', Some ''open: no such file or directory'')),
      Unmarshal = (\<lambda>s. Inl ''invalid character''),
      Render = (\<lambda>s. Inr (''rendered: '' @ s)),
      mapRank = (\<lambda>v k. 0)\<rparr>"

definition notesApp :: App where
  "notesApp = NewApp (NewNavPane scenarioFS ''/work'')"

section \<open>Properties of the navigation pane\<close>

subsection \<open>Reading a directory\<close>

lemma loadDir_loop_eq:
  "loadDir_loop lib dir depth files entries = entries @ map (mkEntry lib dir depth) (filter listed files)"
  by (induction files arbitrary: entries) (simp_all add: Let_def mkEntry_def listed_def)

lemma loadDir_eq:
  "loadDir lib dir depth entries =
     (case ReadDir lib dir of
        Inl err \<Rightarrow> entries
      | Inr files \<Rightarrow> entries @ map (mkEntry lib dir depth) (filter listed (sortSlice (filesLess lib) files)))"
  by (simp add: loadDir_loop_eq split: sum.splits)

declare loadDir.simps [simp del]

lemma set_insertSorted [simp]: "set (insertSorted lt x ys) = insert x (set ys)"
  by (induction ys) auto

lemma mset_insertSorted [simp]: "mset (insertSorted lt x ys) = add_mset x (mset ys)"
  by (induction ys) auto

lemma mset_sortSlice [simp]: "mset (sortSlice lt xs) = mset xs"
  by (induction xs) (auto simp: sortSlice_def)

lemma sortSlice_Nil [simp]: "sortSlice lt [] = []"
  by (simp add: sortSlice_def)

lemma sortSlice_Cons [simp]: "sortSlice lt (x # xs) = insertSorted lt x (sortSlice lt xs)"
  by (simp add: sortSlice_def)

lemma filesLess_asym: "filesLess lib a b \<Longrightarrow> \<not> filesLess lib b a"
  by (auto simp: filesLess_def Let_def split: if_splits)

lemma filesLess_negtrans:
  "\<not> filesLess lib b a \<Longrightarrow> \<not> filesLess lib c b \<Longrightarrow> \<not> filesLess lib c a"
  by (auto simp: filesLess_def Let_def split: if_splits)

lemma sorted_insertSorted_filesLess:
  "sorted_wrt (\<lambda>a b. \<not> filesLess lib b a) ys \<Longrightarrow>
   sorted_wrt (\<lambda>a b. \<not> filesLess lib b a) (insertSorted (filesLess lib) x ys)"
proof (induction ys)
  case Nil
  then show ?case by simp
next
  case (Cons y ys)
  show ?case
  proof (cases "filesLess lib x y")
    case True
    have "\<not> filesLess lib y x" using True by (rule filesLess_asym)
    moreover have "\<forall>z\<in>set ys. \<not> filesLess lib z x"
      using Cons.prems \<open>\<not> filesLess lib y x\<close> filesLess_negtrans by auto
    ultimately show ?thesis using True Cons.prems by simp
  next
    case False
    then show ?thesis using Cons by auto
  qed
qed

lemma sorted_sortSlice_filesLess:
  "sorted_wrt (\<lambda>a b. \<not> filesLess lib b a) (sortSlice (filesLess lib) files)"
  by (induction files) (simp_all add: sorted_insertSorted_filesLess)

lemma mayPrecede_mkEntry:
  "mayPrecede lib (mkEntry lib dir depth f) (mkEntry lib dir depth g) = (\<not> filesLess lib g f)"
  by (auto simp: mayPrecede_def mkEntry_def filesLess_def Let_def)

lemma sorted_loadDir:
  "ReadDir lib dir = Inr files \<Longrightarrow> sorted_wrt (mayPrecede lib) (loadDir lib dir depth [])"
  by (simp add: loadDir_eq sorted_wrt_map mayPrecede_mkEntry sorted_wrt_filter sorted_sortSlice_filesLess)

lemma mset_loadDir:
  assumes rd: "ReadDir lib dir = Inr files"
  shows "mset (map (\<lambda>e. (fe_Name e, fe_IsDir e)) (loadDir lib dir depth [])) =
         mset (map (\<lambda>f. (de_Name f, de_IsDir f)) (filter listed files))"
proof -
  have "mset (filter listed (sortSlice (filesLess lib) files)) = mset (filter listed files)"
    by simp
  then have "mset (map (\<lambda>f. (de_Name f, de_IsDir f)) (filter listed (sortSlice (filesLess lib) files)))
      = mset (map (\<lambda>f. (de_Name f, de_IsDir f)) (filter listed files))"
    by (metis mset_map)
  then show ?thesis using rd by (simp add: loadDir_eq comp_def mkEntry_def)
qed

lemma fields_loadDir:
  "list_all (\<lambda>e. fe_Depth e = depth \<and> \<not> fe_Expanded e) (loadDir lib dir depth [])"
  by (auto simp: loadDir_eq list_all_iff mkEntry_def split: sum.splits)

lemma lowersASCII_asciiToLower: "lowersASCII asciiToLower"
  by (simp add: lowersASCII_def)

lemma lowersASCII_scenario:
  assumes "lowersASCII lower"
  shows "lower ''b.txt'' = ''b.txt''" "lower ''A.txt'' = ''a.txt''" "lower ''sub'' = ''sub''"
proof -
  have a: "isASCII ''b.txt''" "isASCII ''A.txt''" "isASCII ''sub''"
    by (simp_all add: isASCII_def)
  have "asciiToLower ''b.txt'' = ''b.txt''" "asciiToLower ''A.txt'' = ''a.txt''"
    "asciiToLower ''sub'' = ''sub''"
    by (simp_all add: asciiToLower_def asciiLowerByte_def)
  then show "lower ''b.txt'' = ''b.txt''" "lower ''A.txt'' = ''a.txt''" "lower ''sub'' = ''sub''"
    using assms a by (simp_all add: lowersASCII_def)
qed

lemma scenario_entries:
  assumes "lowersASCII (ToLower lib)" "ReadDir lib dir = Inr scenarioFiles"
  shows "nav_entries (NewNavPane lib dir) =
      [mkEntry lib dir 0 \<lparr>de_Name = ''sub'', de_IsDir = True\<rparr>,
       mkEntry lib dir 0 \<lparr>de_Name = ''A.txt'', de_IsDir = False\<rparr>,
       mkEntry lib dir 0 \<lparr>de_Name = ''b.txt'', de_IsDir = False\<rparr>]"
  using assms(2)
  by (simp add: NewNavPane_def loadEntries_def loadDir_eq scenarioFiles_def filesLess_def Let_def
      lowersASCII_scenario [OF assms(1)] listed_def HasPrefix_def)

lemma scenario_listing:
  assumes "lowersASCII (ToLower lib)" "ReadDir lib dir = Inr scenarioFiles"
  shows "map (\<lambda>e. (fe_Name e, fe_IsDir e, fe_Depth e, fe_Expanded e))
           (nav_entries (NewNavPane lib dir))
     = [(''sub'', True, 0, False), (''A.txt'', False, 0, False), (''b.txt'', False, 0, False)]"
  by (simp add: scenario_entries [OF assms] mkEntry_def)

lemma scenarioFS_scenario:
  "lowersASCII (ToLower scenarioFS)" "ReadDir scenarioFS ''/work'' = Inr scenarioFiles"
  by (simp_all add: scenarioFS_def lowersASCII_asciiToLower)

text \<open>
  C6. Whatever \<open>strings.ToLower\<close> returns, a listing is ordered with directories before
  files and then by lower-cased name; it holds exactly the entries of the directory
  whose name does not start with a dot, and those named \<open>.git\<close>, each at the depth of
  the listing and collapsed; a directory that cannot be read gives no entries and no
  error. A directory read as \<open>[b.txt, A.txt, sub/]\<close> is listed as
  \<open>[sub/, A.txt, b.txt]\<close>, at depth 0, collapsed, with every \<open>strings.ToLower\<close> that
  lowers ASCII strings as the library does.
\<close>

theorem C6_listing_order_hidden_and_soft_failure:
  "(ReadDir lib dir = Inr files \<longrightarrow>
      sorted_wrt (mayPrecede lib) (loadDir lib dir depth [])
      \<and> mset (map (\<lambda>e. (fe_Name e, fe_IsDir e)) (loadDir lib dir depth []))
          = mset (map (\<lambda>f. (de_Name f, de_IsDir f))
                   (filter (\<lambda>f. \<not> HasPrefix (de_Name f) ''.'' \<or> de_Name f = ''.git'') files))
      \<and> list_all (\<lambda>e. fe_Depth e = depth \<and> \<not> fe_Expanded e) (loadDir lib dir depth []))
   \<and> (ReadDir lib dir = Inl err \<longrightarrow> loadDir lib dir depth [] = [])
   \<and> (lowersASCII (ToLower lib) \<and> ReadDir lib dir = Inr scenarioFiles \<longrightarrow>
        map (\<lambda>e. (fe_Name e, fe_IsDir e, fe_Depth e, fe_Expanded e))
            (nav_entries (NewNavPane lib dir))
          = [(''sub'', True, 0, False), (''A.txt'', False, 0, False), (''b.txt'', False, 0, False)])"
proof -
  have l: "listed = (\<lambda>f. \<not> HasPrefix (de_Name f) ''.'' \<or> de_Name f = ''.git'')"
    by (rule ext) (simp add: listed_def)
  have "ReadDir lib dir = Inl err \<Longrightarrow> loadDir lib dir depth [] = []"
    by (simp add: loadDir_eq)
  then show ?thesis
    using sorted_loadDir [of lib dir files depth] mset_loadDir [of lib dir files depth]
      fields_loadDir [of depth lib dir] scenario_listing [of lib dir]
    by (simp add: l)
qed

theorem C6_listing_witness:
  "ReadDir repoFS ''/repo'' = Inr repoFiles
   \<and> map fe_Name (loadDir repoFS ''/repo'' 0 []) = [''.git'', ''sub'', ''Zed'', ''A.txt'', ''b.txt'']
   \<and> sorted_wrt (mayPrecede repoFS) (loadDir repoFS ''/repo'' 0 [])
   \<and> list_all (\<lambda>e. fe_Depth e = 0 \<and> \<not> fe_Expanded e) (loadDir repoFS ''/repo'' 0 [])
   \<and> ReadDir repoFS ''/root'' = Inl ''open: permission denied''
   \<and> loadDir repoFS ''/root'' 0 [] = []
   \<and> lowersASCII (ToLower scenarioFS)
   \<and> ReadDir scenarioFS ''/work'' = Inr scenarioFiles
   \<and> map (\<lambda>e. (fe_Name e, fe_IsDir e, fe_Depth e, fe_Expanded e))
          (nav_entries (NewNavPane scenarioFS ''/work''))
       = [(''sub'', True, 0, False), (''A.txt'', False, 0, False), (''b.txt'', False, 0, False)]"
proof -
  have r: "ReadDir repoFS ''/repo'' = Inr repoFiles"
    by (simp add: repoFS_def)
  have e: "ReadDir repoFS ''/root'' = Inl ''open: permission denied''"
    by (simp add: repoFS_def)
  have names: "map fe_Name (loadDir repoFS ''/repo'' 0 []) = [''.git'', ''sub'', ''Zed'', ''A.txt'', ''b.txt'']"
    by (simp add: loadDir_eq r repoFiles_def filesLess_def Let_def repoFS_def asciiToLower_def
        asciiLowerByte_def listed_def HasPrefix_def mkEntry_def)
  show ?thesis
    using C6_listing_order_hidden_and_soft_failure [of repoFS "''/repo''" repoFiles 0 "''open: permission denied''"]
      C6_listing_order_hidden_and_soft_failure [of repoFS "''/root''" repoFiles 0 "''open: permission denied''"]
      C6_listing_order_hidden_and_soft_failure [of scenarioFS "''/work''" scenarioFiles 0 "''open: permission denied''"]
      r e names scenarioFS_scenario
    by simp
qed

subsection \<open>The selected path\<close>

text \<open>
  C10. \<open>SelectedPath\<close> never indexes outside the entries: it never panics, it returns
  the empty string whenever the cursor is not an index of the entries, in particular
  when there are none, and the path of the entry under the cursor otherwise.
\<close>

theorem C10_SelectedPath_in_bounds:
  "(\<forall>p. SelectedPath n \<noteq> Inl p)
   \<and> (nav_cursor n < 0 \<or> int (length (nav_entries n)) \<le> nav_cursor n \<longrightarrow> SelectedPath n = Inr '''')
   \<and> (nav_entries n = [] \<longrightarrow> SelectedPath n = Inr '''')
   \<and> (0 \<le> nav_cursor n \<and> nav_cursor n < int (length (nav_entries n)) \<longrightarrow>
        SelectedPath n = Inr (fe_Path (nav_entries n ! nat (nav_cursor n))))"
  by (auto simp: SelectedPath_def index_def)

theorem C10_SelectedPath_witness:
  "nav_entries (moveCursor emptyPane 1) = []
   \<and> nav_cursor (moveCursor emptyPane 1) < 0
   \<and> SelectedPath (moveCursor emptyPane 1) = Inr ''''
   \<and> SelectedPath ((NewNavPane scenarioFS ''/work'')\<lparr>nav_cursor := 1\<rparr>) = Inr ''/work/A.txt''
   \<and> SelectedPath ((NewNavPane scenarioFS ''/work'')\<lparr>nav_cursor := 3\<rparr>) = Inr ''''"
proof -
  have e: "emptyPane = \<lparr>nav_width = 0, nav_height = 24, nav_focused = True, nav_root = ''/srv/.cache'',
                 nav_entries = [], nav_cursor = 0, nav_offset = 0\<rparr>"
    by (simp add: emptyPane_def NewNavPane_def loadEntries_def loadDir_eq hiddenDirFS_def)
  have m: "nav_entries (moveCursor emptyPane 1) = []" "nav_cursor (moveCursor emptyPane 1) < 0"
    by (simp_all add: e moveCursor_def adjustOffset_def Let_def)
  have w: "nav_entries (NewNavPane scenarioFS ''/work'') =
      [mkEntry scenarioFS ''/work'' 0 \<lparr>de_Name = ''sub'', de_IsDir = True\<rparr>,
       mkEntry scenarioFS ''/work'' 0 \<lparr>de_Name = ''A.txt'', de_IsDir = False\<rparr>,
       mkEntry scenarioFS ''/work'' 0 \<lparr>de_Name = ''b.txt'', de_IsDir = False\<rparr>]"
    by (rule scenario_entries [OF scenarioFS_scenario])
  show ?thesis
    using C10_SelectedPath_in_bounds [of "moveCursor emptyPane 1"]
      C10_SelectedPath_in_bounds [of "(NewNavPane scenarioFS ''/work'')\<lparr>nav_cursor := 1\<rparr>"]
      C10_SelectedPath_in_bounds [of "(NewNavPane scenarioFS ''/work'')\<lparr>nav_cursor := 3\<rparr>"]
      m w
    by (simp add: mkEntry_def scenarioFS_def)
qed

subsection \<open>Cursor moves\<close>

lemma adjustOffset_cursor [simp]: "nav_cursor (adjustOffset n) = nav_cursor n"
  by (simp add: adjustOffset_def Let_def)

lemma adjustOffset_entries [simp]: "nav_entries (adjustOffset n) = nav_entries n"
  by (simp add: adjustOffset_def Let_def)

lemma adjustOffset_height [simp]: "nav_height (adjustOffset n) = nav_height n"
  by (simp add: adjustOffset_def Let_def)

lemma adjustOffset_focused [simp]: "nav_focused (adjustOffset n) = nav_focused n"
  by (simp add: adjustOffset_def Let_def)

lemma moveCursor_entries [simp]: "nav_entries (moveCursor n d) = nav_entries n"
  by (simp add: moveCursor_def Let_def)

lemma moveCursor_height [simp]: "nav_height (moveCursor n d) = nav_height n"
  by (simp add: moveCursor_def Let_def)

lemma moveCursor_focused [simp]: "nav_focused (moveCursor n d) = nav_focused n"
  by (simp add: moveCursor_def Let_def)

lemma viewportOK_offsetOK: "viewportOK n \<Longrightarrow> offsetOK n"
  by (simp add: viewportOK_def)

lemma adjustOffset_viewportOK:
  assumes "0 \<le> nav_cursor n" "nav_cursor n < int (length (nav_entries n))" "offsetOK n"
  shows "viewportOK (adjustOffset n)"
  using assms
  by (auto simp: viewportOK_def offsetOK_def adjustOffset_def Let_def visibleHeight_def)

text \<open>
  On a list that is not empty, a cursor move from a state whose offset is in range
  restores every viewport invariant.
\<close>

lemma moveCursor_viewportOK:
  assumes "nav_entries n \<noteq> []" "offsetOK n"
  shows "viewportOK (moveCursor n d)"
proof -
  have "\<exists>m. moveCursor n d = adjustOffset m \<and> nav_height m = nav_height n
      \<and> nav_entries m = nav_entries n \<and> nav_offset m = nav_offset n
      \<and> 0 \<le> nav_cursor m \<and> nav_cursor m < int (length (nav_entries m))"
    using assms(1) by (auto simp: moveCursor_def Let_def)
  then obtain m where m: "moveCursor n d = adjustOffset m" "nav_height m = nav_height n"
    "nav_entries m = nav_entries n" "nav_offset m = nav_offset n"
    "0 \<le> nav_cursor m" "nav_cursor m < int (length (nav_entries m))"
    by blast
  have "offsetOK m" using assms(2) m by (simp add: offsetOK_def visibleHeight_def)
  with m show ?thesis using adjustOffset_viewportOK [of m] by simp
qed

lemma NavPane_Update_move_viewportOK:
  assumes "isMoveKey msg" "nav_focused n" "nav_entries n \<noteq> []" "offsetOK n"
  shows "viewportOK (NavPane_Update lib n msg) \<and> nav_entries (NavPane_Update lib n msg) = nav_entries n
     \<and> nav_focused (NavPane_Update lib n msg) \<and> nav_height (NavPane_Update lib n msg) = nav_height n"
proof -
  from assms(1) consider "msg = KeyMsg ''j''" | "msg = KeyMsg ''down''" | "msg = KeyMsg ''k''"
    | "msg = KeyMsg ''up''" | "msg = KeyMsg ''g''" | "msg = KeyMsg ''G''"
    by (auto simp: isMoveKey_def)
  then show ?thesis
  proof cases
    case 5
    then show ?thesis using assms(2,3)
      by (auto simp: NavPane_Update_def viewportOK_def offsetOK_def visibleHeight_def)
  next
    case 6
    have "viewportOK (adjustOffset (n\<lparr>nav_cursor := int (length (nav_entries n)) - 1\<rparr>))"
      using assms(3,4) by (intro adjustOffset_viewportOK) (auto simp: offsetOK_def visibleHeight_def)
    then show ?thesis using 6 assms(2)
      by (simp add: NavPane_Update_def)
  qed (simp_all add: NavPane_Update_def moveCursor_viewportOK assms)
qed

text \<open>
  Every run of cursor moves (single steps and jumps) on a focused pane whose list is
  not empty ends with the viewport invariants restored.
\<close>

lemma NavPane_Updates_moves_viewportOK:
  assumes "list_all isMoveKey msgs" "msgs \<noteq> []" "nav_focused n" "nav_entries n \<noteq> []" "offsetOK n"
  shows "viewportOK (NavPane_Updates lib n msgs)"
  using assms
proof (induction msgs arbitrary: n)
  case Nil
  then show ?case by simp
next
  case (Cons m ms)
  let ?n1 = "NavPane_Update lib n m"
  have step: "viewportOK ?n1" "nav_entries ?n1 = nav_entries n" "nav_focused ?n1"
    using NavPane_Update_move_viewportOK [of m n lib] Cons.prems by simp_all
  show ?case
  proof (cases "ms = []")
    case True
    then show ?thesis using step by (simp add: NavPane_Updates_def)
  next
    case False
    have "viewportOK (NavPane_Updates lib ?n1 ms)"
      using Cons.IH [of ?n1] Cons.prems False step viewportOK_offsetOK by simp
    then show ?thesis by (simp add: NavPane_Updates_def)
  qed
qed

lemma emptyPane_eq:
  "emptyPane = \<lparr>nav_width = 0, nav_height = 24, nav_focused = True, nav_root = ''/srv/.cache'',
                 nav_entries = [], nav_cursor = 0, nav_offset = 0\<rparr>"
  by (simp add: emptyPane_def NewNavPane_def loadEntries_def loadDir_eq hiddenDirFS_def)

text \<open>
  C1. On an empty list the clamp of \<open>moveCursor\<close> does not hold the cursor at 0: the
  pane opened on the empty directory has cursor 0 and offset 0, and after \<open>j\<close>, or
  after \<open>G\<close>, its cursor is -1 and its offset is -1.
\<close>

theorem C1_cursor_leaves_empty_list:
  "nav_entries emptyPane = [] \<and> nav_cursor emptyPane = 0 \<and> nav_offset emptyPane = 0
   \<and> nav_cursor (NavPane_Update hiddenDirFS emptyPane (KeyMsg ''j'')) = - 1
   \<and> nav_offset (NavPane_Update hiddenDirFS emptyPane (KeyMsg ''j'')) = - 1
   \<and> nav_cursor (NavPane_Update hiddenDirFS emptyPane (KeyMsg ''G'')) = - 1
   \<and> nav_offset (NavPane_Update hiddenDirFS emptyPane (KeyMsg ''G'')) = - 1"
  by (simp add: emptyPane_eq NavPane_Update_def moveCursor_def adjustOffset_def Let_def)

text \<open>
  The negative offset reaches \<open>View\<close>: after \<open>j\<close> and then \<open>h\<close> (to the parent, where
  the hidden directory left is not listed and the cursor is not reset), the first row
  \<open>View\<close> reads is \<open>n.entries[-1]\<close>.
\<close>

lemma emptyPane_after_j:
  "NavPane_Update hiddenDirFS emptyPane (KeyMsg ''j'') = emptyPane\<lparr>nav_cursor := - 1, nav_offset := - 1\<rparr>"
  by (simp add: emptyPane_eq NavPane_Update_def moveCursor_def adjustOffset_def Let_def)

lemma emptyPane_after_j_h:
  "NavPane_Updates hiddenDirFS emptyPane [KeyMsg ''j'', KeyMsg ''h''] =
     \<lparr>nav_width = 0, nav_height = 24, nav_focused = True, nav_root = ''/srv'',
      nav_entries = [\<lparr>fe_Name = ''www'', fe_Path = ''/srv/www'', fe_IsDir = True,
                      fe_Expanded = False, fe_Depth = 0\<rparr>],
      nav_cursor = - 1, nav_offset = - 1\<rparr>"
  apply (simp add: NavPane_Updates_def emptyPane_after_j)
  apply (simp add: emptyPane_eq NavPane_Update_def goToParent_def Let_def)
  apply (simp add: hiddenDirFS_def loadEntries_def loadDir_eq listed_def HasPrefix_def mkEntry_def
      filesLess_def Let_def asciiToLower_def asciiLowerByte_def)
  done

lemma View_panics_after_empty_list_move:
  "View_rows (NavPane_Updates hiddenDirFS emptyPane [KeyMsg ''j'', KeyMsg ''h'']) = Inl IndexOutOfRange"
  by (simp add: emptyPane_after_j_h View_rows_def index_def numeral_eq_Suc)

section \<open>Properties of the JSON viewer\<close>

subsection \<open>The visible sequence\<close>

lemma allNodes_append:
  "allNodes t (p @ q) = map ((@) p) (allNodes t q)"
  "allNodes_list cs (p @ q) i = map ((@) p) (allNodes_list cs q i)"
  by (induction t q and cs q i rule: allNodes_allNodes_list.induct) simp_all

lemma allNodes_singleton: "allNodes t [i] = map ((#) i) (allNodes t [])"
proof -
  have "allNodes t ([i] @ []) = map ((@) [i]) (allNodes t [])"
    by (rule allNodes_append(1))
  moreover have "(@) [i] = (#) i" by (rule ext) simp
  ultimately show ?thesis by (simp only: append_Nil2)
qed

lemma map_append_Nil [simp]: "map ((@) []) xs = xs"
  by (induction xs) simp_all

lemma filter_chain_children:
  assumes "cs = pre @ rest" "length pre = i"
  shows "filter (chainExpanded (JSONNode k v cs e d a)) (allNodes_list rest [] i)
           = (if e then visChildren rest i else [])"
  using assms
proof (induction rest arbitrary: pre i)
  case Nil
  then show ?case by simp
next
  case (Cons c rest)
  have ci: "cs ! i = c" "i < length cs"
    using Cons.prems by (auto simp: nth_append)
  have step: "filter (chainExpanded (JSONNode k v cs e d a)) (allNodes_list rest [] (Suc i))
           = (if e then visChildren rest (Suc i) else [])"
    using Cons.IH [of "pre @ [c]" "Suc i"] Cons.prems by simp
  have here: "filter (chainExpanded (JSONNode k v cs e d a)) (map ((#) i) (allNodes c []))
           = (if e then map ((#) i) (filter (chainExpanded c) (allNodes c [])) else [])"
    using ci by (simp add: filter_map comp_def)
  show ?case
    using step here by (simp add: allNodes_singleton)
qed

lemma filter_chain_node:
  "filter (chainExpanded (JSONNode k v cs e d a)) (allNodes (JSONNode k v cs e d a) [])
     = [] # (if e then visChildren cs 0 else [])"
  using filter_chain_children [of cs "[]" cs 0 k v e d a] by simp

lemma collectVisible_eq:
  "collectVisible t p acc = acc @ map ((@) p) (filter (chainExpanded t) (allNodes t []))"
  "collectVisible_loop cs p i acc = acc @ map ((@) p) (visChildren cs i)"
proof (induction t p acc and cs p i acc rule: collectVisible_collectVisible_loop.induct)
  case (1 k v cs e d a p nodes)
  then show ?case by (simp add: filter_chain_node Let_def del: allNodes.simps)
next
  case (2 p i nodes)
  then show ?case by simp
next
  case (3 child rest p i nodes)
  then show ?case by (simp add: comp_def)
qed

lemma ancestors_Nil [simp]: "ancestors [] = []"
  by (simp add: ancestors_def)

lemma ancestors_Cons: "ancestors (i # p) = [] # map ((#) i) (ancestors p)"
proof -
  have "[0..<Suc (length p)] = 0 # map Suc [0..<length p]"
    by (simp add: upt_conv_Cons map_Suc_upt del: upt_Suc)
  then show ?thesis by (simp add: ancestors_def comp_def del: upt_Suc)
qed

lemma chainExpanded_iff:
  "chainExpanded t q = (nodeAt t q \<noteq> None \<and> allAncestorsExpanded t q)"
proof (induction t q rule: chainExpanded.induct)
  case (1 node)
  then show ?case by (simp add: allAncestorsExpanded_def)
next
  case (2 k v cs e d a i p)
  show ?case
  proof (cases "i < length cs")
    case True
    have "list_all (expandedAt (JSONNode k v cs e d a)) (map ((#) i) (ancestors p))
        = list_all (expandedAt (cs ! i)) (ancestors p)"
      using True by (simp add: list_all_iff expandedAt_def)
    then show ?thesis
      using 2 True by (auto simp: allAncestorsExpanded_def ancestors_Cons expandedAt_def)
  next
    case False
    then show ?thesis by simp
  qed
qed

lemma set_allNodes_list:
  "set (allNodes_list cs [] i0) = {(i0 + k) # r | k r. k < length cs \<and> r \<in> set (allNodes (cs ! k) [])}"
proof (induction cs arbitrary: i0)
  case Nil
  then show ?case by simp
next
  case (Cons c cs)
  have "{(i0 + k) # r | k r. k < length (c # cs) \<and> r \<in> set (allNodes ((c # cs) ! k) [])}
      = (#) i0 ` set (allNodes c []) \<union>
        {(Suc i0 + k) # r | k r. k < length cs \<and> r \<in> set (allNodes (cs ! k) [])}"
    (is "?L = ?A \<union> ?B")
  proof (intro set_eqI iffI)
    fix q assume "q \<in> ?L"
    then obtain k r where q: "q = (i0 + k) # r" "k < length (c # cs)" "r \<in> set (allNodes ((c # cs) ! k) [])"
      by blast
    show "q \<in> ?A \<union> ?B"
    proof (cases k)
      case 0
      then show ?thesis using q by simp
    next
      case (Suc k')
      then have "q = (Suc i0 + k') # r" "k' < length cs" "r \<in> set (allNodes (cs ! k') [])"
        using q by simp_all
      then show ?thesis by blast
    qed
  next
    fix q assume "q \<in> ?A \<union> ?B"
    then show "q \<in> ?L"
    proof
      assume "q \<in> ?A"
      then obtain r where "q = (i0 + 0) # r" "r \<in> set (allNodes ((c # cs) ! 0) [])" by auto
      moreover have "0 < length (c # cs)" by simp
      ultimately show ?thesis by blast
    next
      assume "q \<in> ?B"
      then obtain k r where "q = (Suc i0 + k) # r" "k < length cs" "r \<in> set (allNodes (cs ! k) [])"
        by blast
      then have "q = (i0 + Suc k) # r" "Suc k < length (c # cs)" "r \<in> set (allNodes ((c # cs) ! Suc k) [])"
        by simp_all
      then show ?thesis by blast
    qed
  qed
  then show ?case using Cons.IH [of "Suc i0"] by (simp add: allNodes_singleton)
qed

lemma set_allNodes: "q \<in> set (allNodes t []) \<longleftrightarrow> nodeAt t q \<noteq> None"
proof (induction q arbitrary: t)
  case Nil
  then show ?case by (cases t) simp
next
  case (Cons i r)
  obtain k v cs e d a where t: "t = JSONNode k v cs e d a" by (cases t)
  show ?case
    using Cons.IH by (auto simp: t set_allNodes_list)
qed

lemma visibleNodes_eq:
  "visibleNodes j =
     (case jv_root j of
        None \<Rightarrow> []
      | Some t \<Rightarrow> filter (allAncestorsExpanded t) (allNodes t []))"
proof (cases "jv_root j")
  case None
  then show ?thesis by (simp add: visibleNodes_def)
next
  case (Some t)
  have "filter (chainExpanded t) (allNodes t []) = filter (allAncestorsExpanded t) (allNodes t [])"
    by (rule filter_cong) (simp_all add: chainExpanded_iff set_allNodes)
  then show ?thesis using Some by (simp add: visibleNodes_def collectVisible_eq)
qed

lemma distinct_allNodes_list:
  "(\<And>c. c \<in> set cs \<Longrightarrow> distinct (allNodes c [])) \<Longrightarrow> distinct (allNodes_list cs [] i)"
proof (induction cs arbitrary: i)
  case Nil
  then show ?case by simp
next
  case (Cons c cs)
  have d1: "distinct (map ((#) i) (allNodes c []))"
    using Cons.prems by (simp add: distinct_map)
  have d2: "distinct (allNodes_list cs [] (Suc i))"
    using Cons by simp
  have "set (map ((#) i) (allNodes c [])) \<inter> set (allNodes_list cs [] (Suc i)) = {}"
    by (auto simp: set_allNodes_list)
  then show ?case using d1 d2 by (simp add: allNodes_singleton)
qed

lemma distinct_allNodes: "distinct (allNodes t [])"
proof (induction t)
  case (JSONNode k v cs e d a)
  have "distinct (allNodes_list cs [] 0)"
    using JSONNode by (intro distinct_allNodes_list) simp
  moreover have "[] \<notin> set (allNodes_list cs [] 0)"
    by (simp add: set_allNodes_list)
  ultimately show ?case by simp
qed

lemma eraseExpanded_setExpanded: "eraseExpanded (setExpanded t q b) = eraseExpanded t"
proof (induction t q b rule: setExpanded.induct)
  case (1 k v cs e d a b)
  then show ?case by simp
next
  case (2 k v cs e d a i p b)
  show ?case
  proof (cases "i < length cs")
    case True
    then have "map eraseExpanded (cs[i := setExpanded (cs ! i) p b]) = map eraseExpanded cs"
      using 2 by (simp add: map_update list_update_same_conv)
    then show ?thesis using True by simp
  next
    case False
    then show ?thesis by simp
  qed
qed

lemma ensureVisible_root [simp]: "jv_root (ensureVisible j) = jv_root j"
  by (simp add: ensureVisible_def Let_def)

lemma storeExpanded_shape:
  "map_option eraseExpanded (jv_root (storeExpanded j q b)) = map_option eraseExpanded (jv_root j)"
  by (cases "jv_root j") (simp_all add: storeExpanded_def eraseExpanded_setExpanded)

subsection \<open>The keys of the viewer, branch by branch\<close>

lemma Update_unfocused: "\<not> jv_focused j \<Longrightarrow> JSONViewer_Update j (KeyMsg k) = Inr j"
  by (simp add: JSONViewer_Update_def)

lemma Update_down:
  assumes "jv_focused j" "k = ''j'' \<or> k = ''down''"
  shows "JSONViewer_Update j (KeyMsg k) =
     (if jv_cursor j < int (length (visibleNodes j)) - 1
      then Inr (ensureVisible (j\<lparr>jv_cursor := jv_cursor j + 1\<rparr>)) else Inr j)"
  using assms by (auto simp: JSONViewer_Update_def Let_def)

lemma Update_up:
  assumes "jv_focused j" "k = ''k'' \<or> k = ''up''"
  shows "JSONViewer_Update j (KeyMsg k) =
     (if jv_cursor j > 0
      then Inr (ensureVisible (j\<lparr>jv_cursor := jv_cursor j - 1\<rparr>)) else Inr j)"
  using assms by (auto simp: JSONViewer_Update_def Let_def)

lemma Update_toggle:
  assumes "jv_focused j" "k = ''enter'' \<or> k = ''l'' \<or> k = ''right''"
  shows "JSONViewer_Update j (KeyMsg k) =
     (if jv_cursor j < int (length (visibleNodes j)) then
        (case visibleAt j (visibleNodes j) (jv_cursor j) of
           Inl p \<Rightarrow> Inl p
         | Inr (q, node) \<Rightarrow>
             if length (Children node) > 0
             then Inr (storeExpanded j q (\<not> Expanded node)) else Inr j)
      else Inr j)"
  using assms by (auto simp: JSONViewer_Update_def Let_def)

lemma Update_collapse:
  assumes "jv_focused j" "k = ''h'' \<or> k = ''left''"
  shows "JSONViewer_Update j (KeyMsg k) =
     (if jv_cursor j < int (length (visibleNodes j)) then
        (case visibleAt j (visibleNodes j) (jv_cursor j) of
           Inl p \<Rightarrow> Inl p
         | Inr (q, node) \<Rightarrow>
             if Expanded node \<and> length (Children node) > 0
             then Inr (storeExpanded j q False) else Inr j)
      else Inr j)"
  using assms by (auto simp: JSONViewer_Update_def Let_def)

lemma Update_halfdown:
  assumes "jv_focused j" "k = ''d'' \<or> k = ''ctrl+d''"
  shows "JSONViewer_Update j (KeyMsg k) =
     Inr (ensureVisible
       (j\<lparr>jv_cursor := (if jv_cursor j + quo (jv_height j) 2 \<ge> int (length (visibleNodes j))
                          then int (length (visibleNodes j)) - 1
                          else jv_cursor j + quo (jv_height j) 2)\<rparr>))"
  using assms by (elim disjE) (simp_all add: JSONViewer_Update_def Let_def)

lemma Update_halfup:
  assumes "jv_focused j" "k = ''u'' \<or> k = ''ctrl+u''"
  shows "JSONViewer_Update j (KeyMsg k) =
     Inr (ensureVisible
       (j\<lparr>jv_cursor := (if jv_cursor j - quo (jv_height j) 2 < 0 then 0
                          else jv_cursor j - quo (jv_height j) 2)\<rparr>))"
  using assms by (elim disjE) (simp_all add: JSONViewer_Update_def Let_def)

lemma Update_g:
  assumes "jv_focused j"
  shows "JSONViewer_Update j (KeyMsg ''g'') = Inr (j\<lparr>jv_cursor := 0, jv_offset := 0\<rparr>)"
  using assms by (simp add: JSONViewer_Update_def Let_def)

lemma Update_G:
  assumes "jv_focused j"
  shows "JSONViewer_Update j (KeyMsg ''G'') =
     Inr (ensureVisible (j\<lparr>jv_cursor := int (length (visibleNodes j)) - 1\<rparr>))"
  using assms by (simp add: JSONViewer_Update_def Let_def)

lemma Update_other:
  assumes "k \<notin> set jsonKeys"
  shows "JSONViewer_Update j (KeyMsg k) = Inr j"
  using assms by (simp add: JSONViewer_Update_def Let_def jsonKeys_def)

subsection \<open>Expanding and collapsing\<close>

lemma JSONViewer_Update_key_root:
  assumes "JSONViewer_Update j (KeyMsg k) = Inr j'"
  shows "map_option eraseExpanded (jv_root j') = map_option eraseExpanded (jv_root j)"
proof (cases "jv_focused j")
  case False
  then show ?thesis using assms by (simp add: Update_unfocused)
next
  case True
  note f = True
  consider (dn) "k = ''j'' \<or> k = ''down''" | (up) "k = ''k'' \<or> k = ''up''"
    | (tg) "k = ''enter'' \<or> k = ''l'' \<or> k = ''right''" | (cl) "k = ''h'' \<or> k = ''left''"
    | (hd) "k = ''d'' \<or> k = ''ctrl+d''" | (hu) "k = ''u'' \<or> k = ''ctrl+u''"
    | (g) "k = ''g''" | (G) "k = ''G''" | (other) "k \<notin> set jsonKeys"
    by (auto simp: jsonKeys_def)
  then show ?thesis
  proof cases
    case dn
    then show ?thesis using assms f by (auto simp: Update_down split: if_splits)
  next
    case up
    then show ?thesis using assms f by (auto simp: Update_up split: if_splits)
  next
    case tg
    then show ?thesis using assms f storeExpanded_shape
      by (auto simp: Update_toggle split: if_splits sum.splits)
  next
    case cl
    then show ?thesis using assms f storeExpanded_shape
      by (auto simp: Update_collapse split: if_splits sum.splits)
  next
    case hd
    then show ?thesis using assms f by (auto simp: Update_halfdown)
  next
    case hu
    then show ?thesis using assms f by (auto simp: Update_halfup)
  next
    case g
    then show ?thesis using assms f by (auto simp: Update_g)
  next
    case G
    then show ?thesis using assms f by (auto simp: Update_G)
  next
    case other
    then show ?thesis using assms by (simp add: Update_other)
  qed
qed

lemma JSONViewer_Updates_keys_shape:
  assumes "JSONViewer_Updates j msgs = Inr j'" "list_all isKeyMsg msgs"
  shows "map_option eraseExpanded (jv_root j') = map_option eraseExpanded (jv_root j)"
  using assms
proof (induction msgs arbitrary: j)
  case Nil
  then show ?case by simp
next
  case (Cons m ms)
  from Cons.prems obtain k where k: "m = KeyMsg k"
    by (cases m) (simp_all add: isKeyMsg_def)
  from Cons.prems obtain j1 where j1: "JSONViewer_Update j m = Inr j1" "JSONViewer_Updates j1 ms = Inr j'"
    by (auto split: sum.splits)
  have "map_option eraseExpanded (jv_root j1) = map_option eraseExpanded (jv_root j)"
    using j1(1) k JSONViewer_Update_key_root by simp
  moreover have "map_option eraseExpanded (jv_root j') = map_option eraseExpanded (jv_root j1)"
    using Cons.IH [OF j1(2)] Cons.prems(2) by simp
  ultimately show ?case by simp
qed

lemma allAncestorsExpanded_Nil [simp]: "allAncestorsExpanded t []"
  by (simp add: allAncestorsExpanded_def)

lemma allNodes_hd: "allNodes t [] = [] # tl (allNodes t [])"
  by (cases t) simp

lemma visibleNodes_root_first:
  "jv_root j = Some t \<Longrightarrow> visibleNodes j \<noteq> [] \<and> hd (visibleNodes j) = []"
  by (cases t) (simp add: visibleNodes_eq)

text \<open>
  C2. After any run of messages (any keys, so any sequence of expanding and collapsing),
  the visible sequence is the depth-first pre-order of the whole tree restricted to
  the nodes all of whose ancestors are expanded: the root comes first and is always
  there, a node with a collapsed ancestor never appears, and every other node does.
  \<open>allNodes\<close> lists every node of the tree exactly once, and keys change nothing of
  the tree but \<open>Expanded\<close> flags.
\<close>

theorem C2_visible_sequence:
  assumes "JSONViewer_Updates j msgs = Inr j'"
  shows "visibleNodes j' =
           (case jv_root j' of
              None \<Rightarrow> []
            | Some t \<Rightarrow> filter (allAncestorsExpanded t) (allNodes t []))
       \<and> (\<forall>t. jv_root j' = Some t \<longrightarrow>
             hd (visibleNodes j') = []
             \<and> set (visibleNodes j') = {q. nodeAt t q \<noteq> None \<and> allAncestorsExpanded t q}
             \<and> set (allNodes t []) = {q. nodeAt t q \<noteq> None}
             \<and> distinct (allNodes t []))
       \<and> (list_all isKeyMsg msgs \<longrightarrow>
             map_option eraseExpanded (jv_root j') = map_option eraseExpanded (jv_root j))"
proof (intro conjI allI impI)
  show "visibleNodes j' =
      (case jv_root j' of None \<Rightarrow> [] | Some t \<Rightarrow> filter (allAncestorsExpanded t) (allNodes t []))"
    by (rule visibleNodes_eq)
next
  fix t assume "jv_root j' = Some t"
  then show "hd (visibleNodes j') = []"
    using visibleNodes_root_first by blast
next
  fix t assume "jv_root j' = Some t"
  then show "set (visibleNodes j') = {q. nodeAt t q \<noteq> None \<and> allAncestorsExpanded t q}"
    by (auto simp: visibleNodes_eq set_allNodes)
next
  fix t
  show "set (allNodes t []) = {q. nodeAt t q \<noteq> None}"
    using set_allNodes by blast
next
  fix t
  show "distinct (allNodes t [])"
    by (rule distinct_allNodes)
next
  assume "list_all isKeyMsg msgs"
  then show "map_option eraseExpanded (jv_root j') = map_option eraseExpanded (jv_root j)"
    using assms JSONViewer_Updates_keys_shape by blast
qed

subsection \<open>Building the tree\<close>

lemma buildTree_JObject:
  "buildTree rank key (JObject v) depth =
     JSONNode key (JObject v)
       (map (\<lambda>(k, val). buildTree rank k val (depth + 1)) (rangeMap (rank v) v)) False depth False"
  by simp

lemma buildTree_JArray:
  "buildTree rank key (JArray v) depth =
     JSONNode key (JArray v)
       (map (\<lambda>(i, val). buildTree rank (''['' @ itoa i @ '']'') val (depth + 1)) (enumerate 0 v))
       False depth True"
  by simp

lemma buildTree_scalar:
  "buildTree rank key JNull depth = JSONNode key JNull [] False depth False"
  "buildTree rank key (JBool b) depth = JSONNode key (JBool b) [] False depth False"
  "buildTree rank key (JNumber x) depth = JSONNode key (JNumber x) [] False depth False"
  "buildTree rank key (JString s) depth = JSONNode key (JString s) [] False depth False"
  by simp_all

declare buildTree.simps [simp del]

lemma buildTree_Key_Value [simp]:
  "Key (buildTree rank key v depth) = key" "Value (buildTree rank key v depth) = v"
  "Depth (buildTree rank key v depth) = depth"
  by (cases v; simp add: buildTree_JObject buildTree_JArray buildTree_scalar)+

lemma children_JArray:
  "map (\<lambda>c. (Key c, Value c)) (Children (buildTree rank key (JArray v) depth))
     = map (\<lambda>(i, val). (''['' @ itoa i @ '']'', val)) (enumerate 0 v)"
  by (simp add: buildTree_JArray comp_def case_prod_unfold)

lemma children_JObject:
  "map (\<lambda>c. (Key c, Value c)) (Children (buildTree rank key (JObject v) depth)) = rangeMap (rank v) v"
  by (simp add: buildTree_JObject comp_def case_prod_unfold)

lemma mset_rangeMap: "mset (rangeMap rank v) = mset v"
  by (simp add: rangeMap_def)

lemma rangeMap_sorted: "sorted (map rank (map fst v)) \<Longrightarrow> rangeMap rank v = v"
  by (simp add: rangeMap_def comp_def sort_key_id_if_sorted)

text \<open>
  C8 (amended). The children of an array node are its elements in index order, child
  \<open>i\<close> under the key \<open>[i]\<close>. The children of an object node are one per entry of the
  object, in the order in which the runtime enumerates the map: a permutation of the
  entries the parser read, equal to the parser's order when the runtime happens to
  enumerate the keys in that order.
\<close>

theorem C8_children_order:
  "map (\<lambda>c. (Key c, Value c)) (Children (buildTree rank key (JArray v) depth))
     = map (\<lambda>(i, val). (''['' @ itoa i @ '']'', val)) (enumerate 0 v)
   \<and> map Value (Children (buildTree rank key (JArray v) depth)) = v
   \<and> map (\<lambda>c. (Key c, Value c)) (Children (buildTree rank key (JObject w) depth)) = rangeMap (rank w) w
   \<and> mset (map (\<lambda>c. (Key c, Value c)) (Children (buildTree rank key (JObject w) depth))) = mset w
   \<and> (sorted (map (rank w) (map fst w)) \<longrightarrow>
        map (\<lambda>c. (Key c, Value c)) (Children (buildTree rank key (JObject w) depth)) = w)"
proof -
  have "map Value (Children (buildTree rank key (JArray v) depth)) = map snd (enumerate 0 v)"
    by (simp add: buildTree_JArray comp_def case_prod_unfold)
  then have "map Value (Children (buildTree rank key (JArray v) depth)) = v"
    by (simp add: enumerate_eq_zip)
  then show ?thesis
    using children_JArray children_JObject mset_rangeMap rangeMap_sorted by simp
qed

lemma itoa_digit: "n < 10 \<Longrightarrow> itoa n = [digit n]"
  by (simp add: itoa.simps)

theorem C8_children_order_witness:
  "sorted (map (rankAB [(''a'', JArray [JNumber 1, JNumber 2]), (''b'', JNumber 3)])
            (map fst [(''a'', JArray [JNumber 1, JNumber 2]), (''b'', JNumber 3)]))
   \<and> map (\<lambda>c. (Key c, Value c)) (Children (buildTree rankAB '''' docAB 0))
       = [(''a'', JArray [JNumber 1, JNumber 2]), (''b'', JNumber 3)]
   \<and> map (\<lambda>c. (Key c, Value c)) (Children (buildTree rankAB ''a'' (JArray [JNumber 1, JNumber 2]) 1))
       = [(''[0]'', JNumber 1), (''[1]'', JNumber 2)]"
proof -
  have s: "sorted (map (rankAB [(''a'', JArray [JNumber 1, JNumber 2]), (''b'', JNumber 3)])
            (map fst [(''a'', JArray [JNumber 1, JNumber 2]), (''b'', JNumber 3)]))"
    by (simp add: rankAB_def)
  have i: "map (\<lambda>(i, val). (''['' @ itoa i @ '']'', val)) (enumerate 0 [JNumber 1, JNumber 2])
      = [(''[0]'', JNumber 1), (''[1]'', JNumber 2)]"
    by (simp add: itoa_digit digit_def)
  have o: "map (\<lambda>c. (Key c, Value c)) (Children (buildTree rankAB '''' docAB 0))
      = [(''a'', JArray [JNumber 1, JNumber 2]), (''b'', JNumber 3)]"
    unfolding docAB_def
    using C8_children_order [of rankAB "''''" "[]" 0
        "[(''a'', JArray [JNumber 1, JNumber 2]), (''b'', JNumber 3)]"] s
    by blast
  have a: "map (\<lambda>c. (Key c, Value c)) (Children (buildTree rankAB ''a'' (JArray [JNumber 1, JNumber 2]) 1))
      = map (\<lambda>(i, val). (''['' @ itoa i @ '']'', val)) (enumerate 0 [JNumber 1, JNumber 2])"
    using C8_children_order [of rankAB "''a''" "[JNumber 1, JNumber 2]" 1 "[]"]
    by blast
  show ?thesis
    using s o a i by (simp only: simp_thms)
qed

text \<open>
  C8 as stated fails: for \<open>{"a": [1, 2], "b": 3}\<close> enumerated by the runtime with \<open>b\<close>
  first, the children of the root are \<open>b\<close>, \<open>a\<close>, not the parser's \<open>a\<close>, \<open>b\<close>.
\<close>

theorem C8_object_order_counterexample:
  "map Key (Children (buildTree rankBA '''' docAB 0)) = [''b'', ''a'']
   \<and> map Key (Children (buildTree rankBA '''' docAB 0))
       \<noteq> map fst [(''a'', JArray [JNumber 1, JNumber 2]), (''b'', JNumber 3)]"
  by (simp add: docAB_def buildTree_JObject rangeMap_def rankBA_def)

lemma openJSON_eq:
  "openJSON (readerOf doc rank) h path =
     Inr \<lparr>jv_width = 80, jv_height = h, jv_focused = True, jv_path = path,
          jv_root = Some (case buildTree rank '''' doc 0 of
                            JSONNode k v cs e d a \<Rightarrow> JSONNode k v cs True d a),
          jv_cursor = 0, jv_offset = 0, jv_err = None\<rparr>"
  by (cases "buildTree rank '''' doc 0")
     (simp add: openJSON_def JSONViewer_Load_def JSONViewer_Load_cmd_def readerOf_def
       JSONViewer_SetFocused_def JSONViewer_SetSize_def NewJSONViewer_def JSONViewer_Update_def)

text \<open>
  C9. \<open>Load\<close> expands the root whatever it is: for the document \<open>42\<close>, and for \<open>{}\<close>,
  the loaded root has no children and \<open>Expanded\<close> set.
\<close>

theorem C9_childless_root_is_expanded:
  "(case openJSON (readerOf (JNumber 42) rankAB) 24 ''/data/answer.json'' of
      Inr j \<Rightarrow> jv_root j = Some (JSONNode '''' (JNumber 42) [] True 0 False)
    | Inl p \<Rightarrow> False)
   \<and> Children (JSONNode '''' (JNumber 42) [] True 0 False) = []
   \<and> Expanded (JSONNode '''' (JNumber 42) [] True 0 False)
   \<and> (case openJSON (readerOf (JObject []) rankAB) 24 ''/data/empty.json'' of
      Inr j \<Rightarrow> jv_root j = Some (JSONNode '''' (JObject []) [] True 0 False)
    | Inl p \<Rightarrow> False)"
  by (simp add: openJSON_eq buildTree_scalar buildTree_JObject rangeMap_def)

lemma openJSON_AB: "openJSON (readerOf docAB rankAB) 24 ''/data/ab.json'' = Inr (viewerAB False 0)"
  by (simp add: openJSON_eq viewerAB_def treeAB_def docAB_def buildTree_JObject buildTree_JArray
      buildTree_scalar rangeMap_def rankAB_def itoa_digit digit_def)

lemma viewerAB_fields [simp]:
  "jv_focused (viewerAB e c)" "jv_cursor (viewerAB e c) = c" "jv_offset (viewerAB e c) = 0"
  "jv_height (viewerAB e c) = 24" "jv_root (viewerAB e c) = Some (treeAB e)"
  by (simp_all add: viewerAB_def)

lemma visibleNodes_AB:
  "visibleNodes (viewerAB False c) = [[], [0], [1]]"
  "visibleNodes (viewerAB True c) = [[], [0], [0, 0], [0, 1], [1]]"
  by (simp_all add: visibleNodes_def viewerAB_def treeAB_def)

lemma run_AB:
  "JSONViewer_Updates (viewerAB False 0) [KeyMsg ''j'', KeyMsg ''enter''] = Inr (viewerAB True 1)"
proof -
  have 1: "JSONViewer_Update (viewerAB False 0) (KeyMsg ''j'') = Inr (viewerAB False 1)"
    by (simp add: Update_down visibleNodes_AB, simp add: viewerAB_def ensureVisible_def)
  have 2: "JSONViewer_Update (viewerAB False 1) (KeyMsg ''enter'') = Inr (viewerAB True 1)"
    by (simp add: Update_toggle visibleNodes_AB visibleAt_def index_def,
        simp add: viewerAB_def treeAB_def storeExpanded_def)
  show ?thesis using 1 2 by simp
qed

theorem C2_visible_sequence_witness:
  "openJSON (readerOf docAB rankAB) 24 ''/data/ab.json'' = Inr (viewerAB False 0)
   \<and> JSONViewer_Updates (viewerAB False 0) [KeyMsg ''j'', KeyMsg ''enter''] = Inr (viewerAB True 1)
   \<and> list_all isKeyMsg [KeyMsg ''j'', KeyMsg ''enter'']
   \<and> jv_root (viewerAB True 1) = Some (treeAB True)
   \<and> filter (allAncestorsExpanded (treeAB True)) (allNodes (treeAB True) [])
        = [[], [0], [0, 0], [0, 1], [1]]
   \<and> eraseExpanded (treeAB True) = eraseExpanded (treeAB False)"
proof -
  have k: "list_all isKeyMsg [KeyMsg ''j'', KeyMsg ''enter'']"
    by (simp add: isKeyMsg_def)
  have r: "jv_root (viewerAB True 1) = Some (treeAB True)" "jv_root (viewerAB False 0) = Some (treeAB False)"
    by (simp_all add: viewerAB_def)
  from C2_visible_sequence [OF run_AB] k r
  have "visibleNodes (viewerAB True 1) = filter (allAncestorsExpanded (treeAB True)) (allNodes (treeAB True) [])"
    and "eraseExpanded (treeAB True) = eraseExpanded (treeAB False)"
    by simp_all
  then show ?thesis
    using openJSON_AB run_AB k r by (simp add: visibleNodes_AB)
qed

subsection \<open>Half-page moves\<close>

lemma openJSON_nine: "openJSON (readerOf nineNulls rankAB) h ''/data/nine.json'' = Inr (nineViewer h 0)"
  by (simp add: openJSON_eq nineViewer_def nineTree_def)

lemma nineViewer_fields [simp]:
  "jv_focused (nineViewer h c)" "jv_cursor (nineViewer h c) = c" "jv_offset (nineViewer h c) = 0"
  "jv_height (nineViewer h c) = h"
  by (simp_all add: nineViewer_def)

lemma visibleNodes_nine [simp]: "length (visibleNodes (nineViewer h c)) = 10"
  by (simp add: visibleNodes_def nineViewer_def nineTree_def nineNulls_def buildTree_JArray
      buildTree_scalar)

lemma quo_2_nonneg: "0 \<le> h \<Longrightarrow> quo h 2 = (h - 2) div 2 + 1"
  by (auto simp: quo_def sgn_if)

lemma quo_2_neg: "0 \<le> h \<Longrightarrow> quo (- h) 2 = - ((h - 2) div 2 + 1)"
  by (auto simp: quo_def sgn_if)

lemma ceiling_half: "\<lceil>real_of_int a / 2\<rceil> = (a + 1) div 2"
proof -
  have "\<lceil>real_of_int a / 2\<rceil> = - (- a div 2)"
    using ceiling_divide_eq_div [of a 2] by simp
  also have "\<dots> = (a + 1) div 2"
    by presburger
  finally show ?thesis .
qed

lemma half_page_is_ceiling_iff_odd:
  "((vh::int) div 2 + 1 = \<lceil>real_of_int vh / 2\<rceil>) = odd vh"
  unfolding ceiling_half by presburger

text \<open>
  C7 (amended). With \<open>viewHeight = height - 2\<close>, the half-page keys move the cursor by
  half the height of the pane, \<open>viewHeight div 2 + 1\<close>, which is the ceiling of
  \<open>viewHeight / 2\<close> exactly when \<open>viewHeight\<close> is odd; the cursor is then clamped (to the
  last node going down, to 0 going up) and the offset adjusted by \<open>ensureVisible\<close> as
  for a single step. The text viewer scrolls its offset by the same amount. With the
  cursor at 2 of 10, \<open>viewHeight = 5\<close> and offset 0, half a page down gives cursor 5 and
  offset 1.
\<close>

theorem C7_half_page_moves:
  "(jv_focused j \<and> 0 \<le> jv_height j \<and> (k = ''d'' \<or> k = ''ctrl+d'') \<longrightarrow>
      JSONViewer_Update j (KeyMsg k) =
        Inr (ensureVisible (j\<lparr>jv_cursor :=
          (if jv_cursor j + ((jv_height j - 2) div 2 + 1) \<ge> int (length (visibleNodes j))
           then int (length (visibleNodes j)) - 1
           else jv_cursor j + ((jv_height j - 2) div 2 + 1))\<rparr>)))
   \<and> (jv_focused j \<and> 0 \<le> jv_height j \<and> (k = ''u'' \<or> k = ''ctrl+u'') \<longrightarrow>
      JSONViewer_Update j (KeyMsg k) =
        Inr (ensureVisible (j\<lparr>jv_cursor :=
          (if jv_cursor j - ((jv_height j - 2) div 2 + 1) < 0 then 0
           else jv_cursor j - ((jv_height j - 2) div 2 + 1))\<rparr>)))
   \<and> (((jv_height j - 2) div 2 + 1 = \<lceil>real_of_int (jv_height j - 2) / 2\<rceil>) = odd (jv_height j - 2))
   \<and> (tv_focused t \<and> 0 \<le> tv_height t \<longrightarrow>
        TextViewer_Update t (KeyMsg ''d'') = TextViewer_scroll t ((tv_height t - 2) div 2 + 1)
        \<and> TextViewer_Update t (KeyMsg ''u'') = TextViewer_scroll t (- ((tv_height t - 2) div 2 + 1)))
   \<and> JSONViewer_Update (nineViewer 7 2) (KeyMsg ''d'')
        = Inr ((nineViewer 7 2)\<lparr>jv_cursor := 5, jv_offset := 1\<rparr>)"
proof (intro conjI impI)
  assume a: "jv_focused j \<and> 0 \<le> jv_height j \<and> (k = ''d'' \<or> k = ''ctrl+d'')"
  then show "JSONViewer_Update j (KeyMsg k) =
        Inr (ensureVisible (j\<lparr>jv_cursor :=
          (if jv_cursor j + ((jv_height j - 2) div 2 + 1) \<ge> int (length (visibleNodes j))
           then int (length (visibleNodes j)) - 1
           else jv_cursor j + ((jv_height j - 2) div 2 + 1))\<rparr>))"
    using Update_halfdown [of j k] quo_2_nonneg [of "jv_height j"] by simp
next
  assume a: "jv_focused j \<and> 0 \<le> jv_height j \<and> (k = ''u'' \<or> k = ''ctrl+u'')"
  then show "JSONViewer_Update j (KeyMsg k) =
        Inr (ensureVisible (j\<lparr>jv_cursor :=
          (if jv_cursor j - ((jv_height j - 2) div 2 + 1) < 0 then 0
           else jv_cursor j - ((jv_height j - 2) div 2 + 1))\<rparr>))"
    using Update_halfup [of j k] quo_2_nonneg [of "jv_height j"] by simp
next
  show "((jv_height j - 2) div 2 + 1 = \<lceil>real_of_int (jv_height j - 2) / 2\<rceil>) = odd (jv_height j - 2)"
    by (rule half_page_is_ceiling_iff_odd)
next
  assume a: "tv_focused t \<and> 0 \<le> tv_height t"
  then show "TextViewer_Update t (KeyMsg ''d'') = TextViewer_scroll t ((tv_height t - 2) div 2 + 1)"
    using quo_2_nonneg [of "tv_height t"] by (simp add: TextViewer_Update_def)
next
  assume a: "tv_focused t \<and> 0 \<le> tv_height t"
  then show "TextViewer_Update t (KeyMsg ''u'') = TextViewer_scroll t (- ((tv_height t - 2) div 2 + 1))"
    using quo_2_neg [of "tv_height t"] by (simp add: TextViewer_Update_def)
next
  show "JSONViewer_Update (nineViewer 7 2) (KeyMsg ''d'')
        = Inr ((nineViewer 7 2)\<lparr>jv_cursor := 5, jv_offset := 1\<rparr>)"
    by (simp add: Update_halfdown quo_def, simp add: ensureVisible_def nineViewer_def)
qed

theorem C7_half_page_moves_witness:
  "jv_focused (nineViewer 9 4) \<and> 0 \<le> jv_height (nineViewer 9 4)
   \<and> JSONViewer_Update (nineViewer 9 4) (KeyMsg ''ctrl+d'')
       = Inr ((nineViewer 9 4)\<lparr>jv_cursor := 8, jv_offset := 2\<rparr>)
   \<and> JSONViewer_Update (nineViewer 9 4) (KeyMsg ''u'')
       = Inr ((nineViewer 9 4)\<lparr>jv_cursor := 0\<rparr>)
   \<and> tv_focused twentyLines \<and> 0 \<le> tv_height twentyLines
   \<and> tv_offset (TextViewer_Update twentyLines (KeyMsg ''d'')) = 3
   \<and> tv_offset (TextViewer_Update twentyLines (KeyMsg ''u'')) = 0"
proof -
  have t: "tv_focused twentyLines \<and> 0 \<le> tv_height twentyLines"
    by (simp add: twentyLines_def)
  have td: "TextViewer_Update twentyLines (KeyMsg ''d'')
        = TextViewer_scroll twentyLines ((tv_height twentyLines - 2) div 2 + 1)"
    and tu: "TextViewer_Update twentyLines (KeyMsg ''u'')
        = TextViewer_scroll twentyLines (- ((tv_height twentyLines - 2) div 2 + 1))"
    using C7_half_page_moves [of "nineViewer 9 4" "''u''" twentyLines] t by blast+
  have ts: "tv_offset (TextViewer_Update twentyLines (KeyMsg ''d'')) = 3"
    "tv_offset (TextViewer_Update twentyLines (KeyMsg ''u'')) = 0"
    unfolding td tu by (simp_all add: twentyLines_def TextViewer_scroll_def Let_def)
  have d: "JSONViewer_Update (nineViewer 9 4) (KeyMsg ''ctrl+d'') =
        Inr (ensureVisible ((nineViewer 9 4)\<lparr>jv_cursor :=
          (if jv_cursor (nineViewer 9 4) + ((jv_height (nineViewer 9 4) - 2) div 2 + 1)
                \<ge> int (length (visibleNodes (nineViewer 9 4)))
           then int (length (visibleNodes (nineViewer 9 4))) - 1
           else jv_cursor (nineViewer 9 4) + ((jv_height (nineViewer 9 4) - 2) div 2 + 1))\<rparr>))"
    using C7_half_page_moves [of "nineViewer 9 4" "''ctrl+d''"] by simp
  have u: "JSONViewer_Update (nineViewer 9 4) (KeyMsg ''u'') =
        Inr (ensureVisible ((nineViewer 9 4)\<lparr>jv_cursor :=
          (if jv_cursor (nineViewer 9 4) - ((jv_height (nineViewer 9 4) - 2) div 2 + 1) < 0 then 0
           else jv_cursor (nineViewer 9 4) - ((jv_height (nineViewer 9 4) - 2) div 2 + 1))\<rparr>))"
    using C7_half_page_moves [of "nineViewer 9 4" "''u''"] by simp
  have j: "JSONViewer_Update (nineViewer 9 4) (KeyMsg ''ctrl+d'')
       = Inr ((nineViewer 9 4)\<lparr>jv_cursor := 8, jv_offset := 2\<rparr>)"
    "JSONViewer_Update (nineViewer 9 4) (KeyMsg ''u'') = Inr ((nineViewer 9 4)\<lparr>jv_cursor := 0\<rparr>)"
    unfolding d u by (simp, simp add: ensureVisible_def nineViewer_def)+
  show ?thesis
    using j t ts by simp
qed

text \<open>
  C7 as stated fails for an even \<open>viewHeight\<close>: with \<open>viewHeight = 4\<close> and the cursor at 0
  of 10, half a page down moves the cursor to 3, not to \<open>0 + 2\<close>.
\<close>

theorem C7_even_height_counterexample:
  "jv_height (nineViewer 6 0) - 2 = 4
   \<and> jv_cursor (nineViewer 6 0) + \<lceil>real_of_int (jv_height (nineViewer 6 0) - 2) / 2\<rceil> = 2
   \<and> JSONViewer_Update (nineViewer 6 0) (KeyMsg ''d'') = Inr ((nineViewer 6 0)\<lparr>jv_cursor := 3\<rparr>)
   \<and> JSONViewer_Update (nineViewer 6 0) (KeyMsg ''d'') \<noteq> Inr (ensureVisible ((nineViewer 6 0)\<lparr>jv_cursor := 2\<rparr>))"
  by (simp add: Update_halfdown quo_def ceiling_half, simp add: ensureVisible_def nineViewer_def)

subsection \<open>Nodes without children\<close>

lemma allCollapsed_leavesCollapsed: "allCollapsed t \<Longrightarrow> leavesCollapsed t"
  by (induction t) (auto simp: list_all_iff)

lemma allCollapsed_buildTree: "allCollapsed (buildTree rank key v depth)"
proof (induction rank key v depth rule: buildTree.induct)
  case (1 rank key v depth)
  show ?case
  proof (cases v)
    case (JArray xs)
    then show ?thesis using 1(1)
      by (auto simp: buildTree_JArray list_all_iff)
  next
    case (JObject kvs)
    then show ?thesis using 1(2)
      by (auto simp: buildTree_JObject list_all_iff)
  qed (simp_all add: buildTree_scalar)
qed

lemma list_all_update: "list_all P xs \<Longrightarrow> P x \<Longrightarrow> list_all P (xs[i := x])"
  using set_update_subset_insert [of xs i x] by (auto simp: list_all_iff)

lemma leavesCollapsed_setExpanded:
  assumes "leavesCollapsed t" "nodeAt t p = Some n" "Children n \<noteq> [] \<or> \<not> b"
  shows "leavesCollapsed (setExpanded t p b)"
  using assms
proof (induction t p b arbitrary: n rule: setExpanded.induct)
  case (1 k v cs e d a b)
  then show ?case by auto
next
  case (2 k v cs e d a i p b)
  show ?case
  proof (cases "i < length cs")
    case True
    have c: "leavesCollapsed (cs ! i)"
      using "2.prems"(1) True by (simp add: list_all_length)
    have "leavesCollapsed (setExpanded (cs ! i) p b)"
      using "2.IH" [OF True c] "2.prems"(2,3) True by simp
    then have "list_all leavesCollapsed (cs[i := setExpanded (cs ! i) p b])"
      using "2.prems"(1) by (simp add: list_all_update)
    then show ?thesis using True "2.prems"(1) by auto
  next
    case False
    then show ?thesis using "2.prems" by simp
  qed
qed

lemma children_setExpanded:
  assumes "list_all leavesCollapsed (Children t)" "nodeAt t q = Some n" "Children n \<noteq> [] \<or> \<not> b"
  shows "list_all leavesCollapsed (Children (setExpanded t q b))"
proof (cases t)
  case (JSONNode k v cs e d a)
  show ?thesis
  proof (cases q)
    case Nil
    then show ?thesis using assms(1) JSONNode by simp
  next
    case (Cons i p)
    show ?thesis
    proof (cases "i < length cs")
      case True
      have c: "leavesCollapsed (cs ! i)"
        using assms(1) JSONNode True by (simp add: list_all_length)
      have "leavesCollapsed (setExpanded (cs ! i) p b)"
        using leavesCollapsed_setExpanded [OF c] assms(2,3) JSONNode Cons True by simp
      then show ?thesis
        using assms(1) JSONNode Cons True by (simp add: list_all_update)
    next
      case False
      then show ?thesis using assms JSONNode Cons by simp
    qed
  qed
qed

lemma visibleAt_node:
  "visibleAt j vis i = Inr (q, node) \<Longrightarrow> \<exists>t. jv_root j = Some t \<and> nodeAt t q = Some node"
  by (auto simp: visibleAt_def split: sum.splits option.splits)

lemma storeExpanded_belowRootOK:
  assumes "belowRootOK j" "visibleAt j vis i = Inr (q, node)" "Children node \<noteq> [] \<or> \<not> b"
  shows "belowRootOK (storeExpanded j q b)"
proof -
  obtain t where t: "jv_root j = Some t" "nodeAt t q = Some node"
    using visibleAt_node [OF assms(2)] by blast
  then show ?thesis
    using assms(1,3) children_setExpanded [of t q node b]
    by (simp add: belowRootOK_def storeExpanded_def)
qed

lemma ensureVisible_belowRootOK [simp]: "belowRootOK (ensureVisible j) = belowRootOK j"
  by (simp add: belowRootOK_def)

lemma belowRootOK_cursor [simp]: "belowRootOK (j\<lparr>jv_cursor := c\<rparr>) = belowRootOK j"
  "belowRootOK (j\<lparr>jv_cursor := c, jv_offset := x\<rparr>) = belowRootOK j"
  by (simp_all add: belowRootOK_def)

lemma JSONViewer_Update_key_belowRootOK:
  assumes "JSONViewer_Update j (KeyMsg k) = Inr j'" "belowRootOK j"
  shows "belowRootOK j'"
proof (cases "jv_focused j")
  case False
  then show ?thesis using assms by (simp add: Update_unfocused)
next
  case True
  note f = True
  consider (dn) "k = ''j'' \<or> k = ''down''" | (up) "k = ''k'' \<or> k = ''up''"
    | (tg) "k = ''enter'' \<or> k = ''l'' \<or> k = ''right''" | (cl) "k = ''h'' \<or> k = ''left''"
    | (hd) "k = ''d'' \<or> k = ''ctrl+d''" | (hu) "k = ''u'' \<or> k = ''ctrl+u''"
    | (g) "k = ''g''" | (G) "k = ''G''" | (other) "k \<notin> set jsonKeys"
    by (auto simp: jsonKeys_def)
  then show ?thesis
  proof cases
    case dn
    then show ?thesis using assms f by (auto simp: Update_down split: if_splits)
  next
    case up
    then show ?thesis using assms f by (auto simp: Update_up split: if_splits)
  next
    case tg
    then show ?thesis using assms f storeExpanded_belowRootOK
      by (auto simp: Update_toggle split: if_splits sum.splits)
  next
    case cl
    then show ?thesis using assms f storeExpanded_belowRootOK
      by (auto simp: Update_collapse split: if_splits sum.splits)
  next
    case hd
    then show ?thesis using assms f by (auto simp: Update_halfdown)
  next
    case hu
    then show ?thesis using assms f by (auto simp: Update_halfup)
  next
    case g
    then show ?thesis using assms f by (auto simp: Update_g)
  next
    case G
    then show ?thesis using assms f by (auto simp: Update_G)
  next
    case other
    then show ?thesis using assms by (simp add: Update_other)
  qed
qed

lemma openJSON_belowRootOK:
  assumes "openJSON rd h path = Inr j"
  shows "belowRootOK j"
proof -
  have *: "\<And>t k v cs e d a. allCollapsed t \<Longrightarrow> t = JSONNode k v cs e d a \<Longrightarrow> list_all leavesCollapsed cs"
    using allCollapsed_leavesCollapsed by (auto simp: list_all_iff)
  show ?thesis
    using assms *[OF allCollapsed_buildTree]
    by (auto simp: openJSON_def JSONViewer_Load_def JSONViewer_Load_cmd_def JSONViewer_Update_def
        JSONViewer_SetFocused_def JSONViewer_SetSize_def NewJSONViewer_def belowRootOK_def
        split: prod.splits option.splits sum.splits JSONNode.splits)
qed

text \<open>
  Below the root the invariant of C9 does hold: after a load and any run of keys, every
  node other than the root that has no children is collapsed.
\<close>

lemma loaded_tree_leaves_collapsed_below_root:
  assumes "openJSON rd h path = Inr j0" "list_all isKeyMsg msgs" "JSONViewer_Updates j0 msgs = Inr j'"
  shows "belowRootOK j'"
proof -
  have "belowRootOK j \<Longrightarrow> list_all isKeyMsg msgs \<Longrightarrow> JSONViewer_Updates j msgs = Inr j' \<Longrightarrow> belowRootOK j'" for j
  proof (induction msgs arbitrary: j)
    case Nil
    then show ?case by simp
  next
    case (Cons m ms)
    from Cons.prems obtain k where k: "m = KeyMsg k"
      by (cases m) (simp_all add: isKeyMsg_def)
    from Cons.prems obtain j1 where j1: "JSONViewer_Update j m = Inr j1" "JSONViewer_Updates j1 ms = Inr j'"
      by (auto split: sum.splits)
    have "belowRootOK j1"
      using JSONViewer_Update_key_belowRootOK j1(1) k Cons.prems(1) by blast
    then show ?case using Cons.IH [of j1] Cons.prems(2) j1(2) by simp
  qed
  then show ?thesis using assms openJSON_belowRootOK by blast
qed

text \<open>
  The cursor leaves an empty list in this viewer too: when the file did not parse there
  is no tree, \<open>G\<close> sets cursor and offset to -1, and \<open>enter\<close> then reads \<open>visible[-1]\<close>.
\<close>

lemma JSONViewer_panics_after_jump_on_empty:
  "(case openJSON brokenReader 24 ''/data/broken.json'' of
      Inr j \<Rightarrow> jv_root j = None \<and> jv_cursor j = 0
               \<and> JSONViewer_Update j (KeyMsg ''G'') = Inr (j\<lparr>jv_cursor := - 1, jv_offset := - 1\<rparr>)
               \<and> JSONViewer_Updates j [KeyMsg ''G'', KeyMsg ''enter''] = Inl IndexOutOfRange
    | Inl p \<Rightarrow> False)"
  by (simp add: openJSON_def JSONViewer_Load_def JSONViewer_Load_cmd_def brokenReader_def
      JSONViewer_SetFocused_def JSONViewer_SetSize_def NewJSONViewer_def JSONViewer_Update_def
      visibleNodes_def ensureVisible_def Let_def index_def visibleAt_def)

section \<open>Properties of the router and the application\<close>

subsection \<open>Dispatch\<close>

lemma Viewer_SetSize_fields [simp]:
  "vr_current (Viewer_SetSize r v w h) = vr_current r"
  "vr_viewers (Viewer_SetSize r v w h) = vr_viewers r"
  "vr_focused (Viewer_SetSize r v w h) = vr_focused r"
  "vr_width (Viewer_SetSize r v w h) = vr_width r"
  "vr_height (Viewer_SetSize r v w h) = vr_height r"
  by (cases v; simp)+

lemma Viewer_SetFocused_fields [simp]:
  "vr_current (Viewer_SetFocused r v f) = vr_current r"
  "vr_viewers (Viewer_SetFocused r v f) = vr_viewers r"
  "vr_focused (Viewer_SetFocused r v f) = vr_focused r"
  "vr_width (Viewer_SetFocused r v f) = vr_width r"
  "vr_height (Viewer_SetFocused r v f) = vr_height r"
  by (cases v; simp)+

lemma Viewer_Load_fields [simp]:
  "vr_current (fst (Viewer_Load r v path)) = vr_current r"
  "vr_viewers (fst (Viewer_Load r v path)) = vr_viewers r"
  "pathOf (fst (Viewer_Load r v path)) v = path"
  by (cases v; simp add: MarkdownViewer_Load_def JSONViewer_Load_def TextViewer_Load_def)+

lemma OpenFile_registered:
  assumes "vr_viewers r = [mdV, jsonV, textV]"
  shows "OpenFile lib r path =
     Inr (Viewer_Load
            (Viewer_SetFocused
               (Viewer_SetSize (r\<lparr>vr_current := Some (dispatch lib path)\<rparr>) (dispatch lib path)
                  (vr_width r) (vr_height r))
               (dispatch lib path) (vr_focused r))
            (dispatch lib path) path)"
  using assms by (simp add: OpenFile_def dispatch_def TextViewer_CanView_def Let_def)

lemma selected_registered:
  assumes "vr_viewers r = [mdV, jsonV, textV]"
  shows "selected lib r path = Some (dispatch lib path)"
  by (simp add: selected_def OpenFile_registered [OF assms] case_prod_beta)

lemma find_registered:
  "List.find (\<lambda>v. Viewer_CanView lib v path) [mdV, jsonV, textV] = Some (dispatch lib path)"
  by (simp add: dispatch_def TextViewer_CanView_def)

lemma dispatch_tag:
  "ToLower lib (Ext p) = ToLower lib (Ext q) \<Longrightarrow> dispatch lib p = dispatch lib q"
  by (simp add: dispatch_def MarkdownViewer_CanView_def JSONViewer_CanView_def)

text \<open>
  C4. Whatever \<open>strings.ToLower\<close> returns, in a router with the registration order of
  \<open>NewViewerRouter\<close> (markdown, JSON, text), \<open>OpenFile\<close> makes current the first viewer
  in that order whose \<open>CanView\<close> holds; the text viewer accepts every path and is the one selected exactly when neither
  the markdown nor the JSON viewer claims the path; and the selection is a function of
  the lower-cased extension of the path alone, the same in every state of the router.
\<close>

theorem C4_dispatch_first_match_with_fallback:
  assumes "vr_viewers r = [mdV, jsonV, textV]"
  shows "selected lib r path = List.find (\<lambda>v. Viewer_CanView lib v path) (vr_viewers r)
     \<and> (\<forall>p. Viewer_CanView lib textV p)
     \<and> (selected lib r path = Some textV \<longleftrightarrow>
          \<not> Viewer_CanView lib mdV path \<and> \<not> Viewer_CanView lib jsonV path)
     \<and> (\<forall>r2 path2. vr_viewers r2 = [mdV, jsonV, textV] \<and> ToLower lib (Ext path2) = ToLower lib (Ext path)
          \<longrightarrow> selected lib r2 path2 = selected lib r path)"
proof (intro conjI allI impI)
  show "selected lib r path = List.find (\<lambda>v. Viewer_CanView lib v path) (vr_viewers r)"
    using assms by (simp only: selected_registered find_registered)
next
  fix p show "Viewer_CanView lib textV p"
    by (simp add: TextViewer_CanView_def)
next
  show "selected lib r path = Some textV \<longleftrightarrow> \<not> Viewer_CanView lib mdV path \<and> \<not> Viewer_CanView lib jsonV path"
    using assms by (simp add: selected_registered dispatch_def)
next
  fix r2 :: ViewerRouter and path2 :: string
  assume "vr_viewers r2 = [mdV, jsonV, textV] \<and> ToLower lib (Ext path2) = ToLower lib (Ext path)"
  then show "selected lib r2 path2 = selected lib r path"
    using assms dispatch_tag [of lib path2 path] by (simp add: selected_registered)
qed

lemma Ext_examples:
  "ToLower scenarioFS (Ext ''/docs/README.MD'') = ''.md''"
  "ToLower scenarioFS (Ext ''/docs/notes.md'') = ''.md''"
  "ToLower scenarioFS (Ext ''/etc/app.d/config.Json'') = ''.json''"
  "ToLower scenarioFS (Ext ''/src.d/Makefile'') = ''''"
  by (simp_all add: Ext_def scenarioFS_def asciiToLower_def asciiLowerByte_def)

theorem C4_dispatch_witness:
  "vr_viewers NewViewerRouter = [mdV, jsonV, textV]
   \<and> selected scenarioFS NewViewerRouter ''/docs/README.MD'' = Some mdV
   \<and> selected scenarioFS NewViewerRouter ''/docs/notes.md'' = selected scenarioFS NewViewerRouter ''/docs/README.MD''
   \<and> selected scenarioFS NewViewerRouter ''/etc/app.d/config.Json'' = Some jsonV
   \<and> selected scenarioFS NewViewerRouter ''/src.d/Makefile'' = Some textV"
proof -
  have v: "vr_viewers NewViewerRouter = [mdV, jsonV, textV]"
    by (simp add: NewViewerRouter_def)
  have c: "Viewer_CanView scenarioFS mdV ''/docs/README.MD''" "\<not> Viewer_CanView scenarioFS mdV ''/etc/app.d/config.Json''"
    "Viewer_CanView scenarioFS jsonV ''/etc/app.d/config.Json''" "\<not> Viewer_CanView scenarioFS mdV ''/src.d/Makefile''"
    "\<not> Viewer_CanView scenarioFS jsonV ''/src.d/Makefile''"
    by (simp_all add: MarkdownViewer_CanView_def JSONViewer_CanView_def Ext_examples)
  have t: "ToLower scenarioFS (Ext ''/docs/notes.md'') = ToLower scenarioFS (Ext ''/docs/README.MD'')"
    by (simp add: Ext_examples)
  have m: "selected scenarioFS NewViewerRouter ''/docs/README.MD'' = Some mdV"
    using C4_dispatch_first_match_with_fallback [where lib = scenarioFS and path = "''/docs/README.MD''", OF v] v c
    by simp
  have n: "selected scenarioFS NewViewerRouter ''/docs/notes.md'' = selected scenarioFS NewViewerRouter ''/docs/README.MD''"
    using C4_dispatch_first_match_with_fallback [where lib = scenarioFS and path = "''/docs/README.MD''", OF v] v t
    by blast
  have j: "selected scenarioFS NewViewerRouter ''/etc/app.d/config.Json'' = Some jsonV"
    using C4_dispatch_first_match_with_fallback [where lib = scenarioFS and path = "''/etc/app.d/config.Json''", OF v] v c
    by simp
  have x: "selected scenarioFS NewViewerRouter ''/src.d/Makefile'' = Some textV"
    using C4_dispatch_first_match_with_fallback [where lib = scenarioFS and path = "''/src.d/Makefile''", OF v] c
    by blast
  show ?thesis using v m n j x by simp
qed

subsection \<open>Completions of loads\<close>

lemma opened_fields [simp]:
  "vr_current (fst (opened lib r path)) = Some (dispatch lib path)"
  "vr_viewers (fst (opened lib r path)) = vr_viewers r"
  "pathOf (fst (opened lib r path)) (dispatch lib path) = path"
  by (simp_all add: opened_def)

lemma Load_cmd_shape:
  "\<exists>c e. MarkdownViewer_Load_cmd p rd = MarkdownLoadedMsg p c e"
  "\<exists>t e. JSONViewer_Load_cmd p rd = JSONLoadedMsg p t e"
  "\<exists>c e. TextViewer_Load_cmd p rd = FileLoadedMsg p c e"
proof -
  show "\<exists>c e. MarkdownViewer_Load_cmd p rd = MarkdownLoadedMsg p c e"
    by (simp add: MarkdownViewer_Load_cmd_def split: prod.splits option.splits sum.splits)
  show "\<exists>t e. JSONViewer_Load_cmd p rd = JSONLoadedMsg p t e"
    by (simp add: JSONViewer_Load_cmd_def split: prod.splits option.splits sum.splits JSONNode.splits)
  show "\<exists>c e. TextViewer_Load_cmd p rd = FileLoadedMsg p c e"
    by (simp add: TextViewer_Load_cmd_def split: prod.splits)
qed

lemma Viewer_Load_snd:
  "snd (Viewer_Load r mdV p) = MarkdownViewer_Load_cmd p"
  "snd (Viewer_Load r jsonV p) = JSONViewer_Load_cmd p"
  "snd (Viewer_Load r textV p) = TextViewer_Load_cmd p"
  by (simp_all add: MarkdownViewer_Load_def JSONViewer_Load_def TextViewer_Load_def)

declare Viewer_Load.simps [simp del]

lemma Viewer_Load_delivers:
  "map_option fst (delivered (snd (Viewer_Load r v path) rd)) = Some path"
proof (cases v)
  case mdV
  obtain c e where "MarkdownViewer_Load_cmd path rd = MarkdownLoadedMsg path c e"
    using Load_cmd_shape(1) by blast
  then show ?thesis using mdV by (simp add: Viewer_Load_snd delivered_def)
next
  case jsonV
  obtain t e where "JSONViewer_Load_cmd path rd = JSONLoadedMsg path t e"
    using Load_cmd_shape(2) by blast
  then show ?thesis using jsonV by (simp add: Viewer_Load_snd delivered_def)
next
  case textV
  obtain c e where "TextViewer_Load_cmd path rd = FileLoadedMsg path c e"
    using Load_cmd_shape(3) by blast
  then show ?thesis using textV by (simp add: Viewer_Load_snd delivered_def)
qed

lemma opened_delivers: "map_option fst (delivered (snd (opened lib r path) rd)) = Some path"
  by (simp add: opened_def Viewer_Load_delivers)

lemma delivered_cases:
  assumes "map_option fst (delivered msg) = Some A"
  obtains (isText) c e where "msg = FileLoadedMsg A c e"
    | (isMd) c e where "msg = MarkdownLoadedMsg A c e"
    | (isJson) t e where "msg = JSONLoadedMsg A t e"
  using assms by (cases msg) (simp_all add: delivered_def)

lemma stale_completion_discarded:
  assumes "vr_current r = Some v" "map_option fst (delivered msg) = Some A" "A \<noteq> pathOf r v"
  shows "ViewerRouter_Update r msg = Inr r"
  using assms(2)
proof (cases rule: delivered_cases)
  case (isText c e)
  then show ?thesis using assms(1,3)
    by (cases v)
       (simp_all add: ViewerRouter_Update_def MarkdownViewer_Update_def JSONViewer_Update_def
          TextViewer_Update_def)
next
  case (isMd c e)
  then show ?thesis using assms(1,3)
    by (cases v)
       (simp_all add: ViewerRouter_Update_def MarkdownViewer_Update_def JSONViewer_Update_def
          TextViewer_Update_def)
next
  case (isJson t e)
  then show ?thesis using assms(1,3)
    by (cases v)
       (simp_all add: ViewerRouter_Update_def MarkdownViewer_Update_def JSONViewer_Update_def
          TextViewer_Update_def)
qed

lemma fresh_completion_shown:
  assumes "vr_current r = Some v" "pathOf r v = B"
  shows "\<exists>r3. ViewerRouter_Update r (snd (Viewer_Load r0 v B) rd) = Inr r3
           \<and> shown r3 = delivered (snd (Viewer_Load r0 v B) rd)
           \<and> vr_current r3 = Some v \<and> pathOf r3 v = B"
proof (cases v)
  case mdV
  obtain c e where m: "MarkdownViewer_Load_cmd B rd = MarkdownLoadedMsg B c e"
    using Load_cmd_shape(1) by blast
  let ?r3 = "r\<lparr>vr_md := (vr_md r)\<lparr>mv_rendered := c, mv_lines := Split_nl c, mv_offset := 0, mv_err := e\<rparr>\<rparr>"
  have "ViewerRouter_Update r (MarkdownLoadedMsg B c e) = Inr ?r3"
    using assms mdV by (simp add: ViewerRouter_Update_def MarkdownViewer_Update_def)
  moreover have "shown ?r3 = delivered (MarkdownLoadedMsg B c e)"
    using assms mdV by (simp add: shown_def delivered_def)
  moreover have "vr_current ?r3 = Some v \<and> pathOf ?r3 v = B"
    using assms mdV by simp
  ultimately show ?thesis using mdV m by (simp add: Viewer_Load_snd)
next
  case jsonV
  obtain t e where m: "JSONViewer_Load_cmd B rd = JSONLoadedMsg B t e"
    using Load_cmd_shape(2) by blast
  let ?r3 = "r\<lparr>vr_jsonv := (vr_jsonv r)\<lparr>jv_root := t, jv_cursor := 0, jv_offset := 0, jv_err := e\<rparr>\<rparr>"
  have "ViewerRouter_Update r (JSONLoadedMsg B t e) = Inr ?r3"
    using assms jsonV by (simp add: ViewerRouter_Update_def JSONViewer_Update_def)
  moreover have "shown ?r3 = delivered (JSONLoadedMsg B t e)"
    using assms jsonV by (simp add: shown_def delivered_def)
  moreover have "vr_current ?r3 = Some v \<and> pathOf ?r3 v = B"
    using assms jsonV by simp
  ultimately show ?thesis using jsonV m by (simp add: Viewer_Load_snd)
next
  case textV
  obtain c e where m: "TextViewer_Load_cmd B rd = FileLoadedMsg B c e"
    using Load_cmd_shape(3) by blast
  let ?r3 = "r\<lparr>vr_text := (vr_text r)\<lparr>tv_content := c, tv_lines := Split_nl c, tv_offset := 0, tv_err := e\<rparr>\<rparr>"
  have "ViewerRouter_Update r (FileLoadedMsg B c e) = Inr ?r3"
    using assms textV by (simp add: ViewerRouter_Update_def TextViewer_Update_def)
  moreover have "shown ?r3 = delivered (FileLoadedMsg B c e)"
    using assms textV by (simp add: shown_def delivered_def)
  moreover have "vr_current ?r3 = Some v \<and> pathOf ?r3 v = B"
    using assms textV by simp
  ultimately show ?thesis using textV m by (simp add: Viewer_Load_snd)
qed

lemma App_Update_select:
  assumes "vr_viewers (app_viewer a) = [mdV, jsonV, textV]"
  shows "App_Update lib a (FileSelectedMsg p) =
     Inr (a\<lparr>app_editPath := p, app_viewer := fst (opened lib (app_viewer a) p)\<rparr>,
          [snd (opened lib (app_viewer a) p)])"
  using OpenFile_registered [OF assms, of lib p]
  by (simp add: Let_def opened_def case_prod_beta)

lemma App_Update_completion:
  assumes "map_option fst (delivered msg) = Some p"
  shows "App_Update lib a msg = App_forward a msg"
  using assms by (cases msg) (simp_all add: delivered_def)

lemma App_forward_stale:
  assumes "vr_current (app_viewer a) = Some v" "map_option fst (delivered msg) = Some A"
    "A \<noteq> pathOf (app_viewer a) v"
  shows "App_Update lib a msg = Inr (a, [])"
  using stale_completion_discarded [OF assms] App_Update_completion [OF assms(2), of lib a]
  by (simp add: App_forward_def)

text \<open>
  C3. After \<open>A\<close> is selected and then a different \<open>B\<close>, the completion of the load of
  \<open>A\<close> is discarded whenever it arrives: before the completion of \<open>B\<close> it leaves the
  application unchanged, and after it too, so both arrival orders end in the same
  state, in which the pane shows, under the path \<open>B\<close>, what the completion of \<open>B\<close>
  delivered. The completions are the messages the commands of the two selections
  give, whatever the reads return.
\<close>

theorem C3_stale_load_discarded:
  assumes reg: "vr_viewers (app_viewer a) = [mdV, jsonV, textV]"
    and ne: "A \<noteq> B"
    and selA: "App_Update lib a (FileSelectedMsg A) = Inr (a1, [cmdA])"
    and selB: "App_Update lib a1 (FileSelectedMsg B) = Inr (a2, [cmdB])"
  shows "App_Update lib a2 (cmdA rdA) = Inr (a2, [])
     \<and> (\<exists>a3. App_Update lib a2 (cmdB rdB) = Inr (a3, [])
            \<and> App_Update lib a3 (cmdA rdA) = Inr (a3, [])
            \<and> shown (app_viewer a3) = delivered (cmdB rdB)
            \<and> map_option fst (shown (app_viewer a3)) = Some B)"
proof -
  let ?r0 = "app_viewer a"
  have a1: "a1 = a\<lparr>app_editPath := A, app_viewer := fst (opened lib ?r0 A)\<rparr>"
    and cA: "cmdA = snd (opened lib ?r0 A)"
    using selA App_Update_select [OF reg, of lib A] by simp_all
  let ?r1 = "app_viewer a1"
  have reg1: "vr_viewers ?r1 = [mdV, jsonV, textV]"
    using a1 reg by simp
  have a2: "a2 = a1\<lparr>app_editPath := B, app_viewer := fst (opened lib ?r1 B)\<rparr>"
    and cB: "cmdB = snd (opened lib ?r1 B)"
    using selB App_Update_select [OF reg1, of lib B] by simp_all
  let ?v = "dispatch lib B"
  have cur2: "vr_current (app_viewer a2) = Some ?v" and path2: "pathOf (app_viewer a2) ?v = B"
    using a2 by simp_all
  have dA: "map_option fst (delivered (cmdA rdA)) = Some A"
    using cA opened_delivers by simp
  have dB: "map_option fst (delivered (cmdB rdB)) = Some B"
    using cB opened_delivers by simp
  have stale2: "App_Update lib a2 (cmdA rdA) = Inr (a2, [])"
    using App_forward_stale [OF cur2 dA] ne path2 by simp
  have cB': "cmdB = snd (Viewer_Load
       (Viewer_SetFocused
          (Viewer_SetSize (?r1\<lparr>vr_current := Some ?v\<rparr>) ?v (vr_width ?r1) (vr_height ?r1))
          ?v (vr_focused ?r1)) ?v B)"
    using cB by (simp add: opened_def)
  obtain r3 where r3: "ViewerRouter_Update (app_viewer a2) (cmdB rdB) = Inr r3"
    "shown r3 = delivered (cmdB rdB)" "vr_current r3 = Some ?v" "pathOf r3 ?v = B"
    using fresh_completion_shown [OF cur2 path2] cB' by blast
  let ?a3 = "a2\<lparr>app_viewer := r3\<rparr>"
  have fresh: "App_Update lib a2 (cmdB rdB) = Inr (?a3, [])"
    using App_Update_completion [OF dB, of lib a2] r3(1) by (simp add: App_forward_def)
  have cur3: "vr_current (app_viewer ?a3) = Some ?v" and path3: "pathOf (app_viewer ?a3) ?v = B"
    using r3 by simp_all
  have stale3: "App_Update lib ?a3 (cmdA rdA) = Inr (?a3, [])"
    using App_forward_stale [OF cur3 dA] ne path3 by simp
  have sh: "shown (app_viewer ?a3) = delivered (cmdB rdB)"
    using r3(2) by simp
  then have "map_option fst (shown (app_viewer ?a3)) = Some B"
    using dB by simp
  then show ?thesis using stale2 fresh stale3 sh by blast
qed

lemma notesApp_viewers: "vr_viewers (app_viewer notesApp) = [mdV, jsonV, textV]"
  by (simp add: notesApp_def NewApp_def NewViewerRouter_def)

lemma dispatch_notes:
  "dispatch scenarioFS ''/notes/a.txt'' = textV" "dispatch scenarioFS ''/notes/b.md'' = mdV"
  by (simp_all add: dispatch_def MarkdownViewer_CanView_def JSONViewer_CanView_def Ext_def
      scenarioFS_def asciiToLower_def asciiLowerByte_def)

lemma opened_cmd_notes:
  "snd (opened scenarioFS r ''/notes/a.txt'') notesReader = FileLoadedMsg ''/notes/a.txt'' ''alpha'' None"
  "snd (opened scenarioFS r ''/notes/b.md'') notesReader
     = MarkdownLoadedMsg ''/notes/b.md'' ''rendered: # beta'' None"
  by (simp_all add: opened_def dispatch_notes Viewer_Load_snd TextViewer_Load_cmd_def
      MarkdownViewer_Load_cmd_def notesReader_def)

theorem C3_stale_load_discarded_witness:
  "vr_viewers (app_viewer notesApp) = [mdV, jsonV, textV]
   \<and> ''/notes/a.txt'' \<noteq> ''/notes/b.md''
   \<and> (\<exists>a1 cmdA a2 cmdB a3.
         App_Update scenarioFS notesApp (FileSelectedMsg ''/notes/a.txt'') = Inr (a1, [cmdA])
       \<and> App_Update scenarioFS a1 (FileSelectedMsg ''/notes/b.md'') = Inr (a2, [cmdB])
       \<and> cmdA notesReader = FileLoadedMsg ''/notes/a.txt'' ''alpha'' None
       \<and> cmdB notesReader = MarkdownLoadedMsg ''/notes/b.md'' ''rendered: # beta'' None
       \<and> App_Update scenarioFS a2 (cmdA notesReader) = Inr (a2, [])
       \<and> App_Update scenarioFS a2 (cmdB notesReader) = Inr (a3, [])
       \<and> App_Update scenarioFS a3 (cmdA notesReader) = Inr (a3, [])
       \<and> shown (app_viewer a3) = Some (''/notes/b.md'', MarkdownContent ''rendered: # beta'' None))"
proof -
  let ?A = "''/notes/a.txt''" and ?B = "''/notes/b.md''"
  have reg: "vr_viewers (app_viewer notesApp) = [mdV, jsonV, textV]"
    by (rule notesApp_viewers)
  have ne: "?A \<noteq> ?B" by simp
  let ?a1 = "notesApp\<lparr>app_editPath := ?A, app_viewer := fst (opened scenarioFS (app_viewer notesApp) ?A)\<rparr>"
  let ?cA = "snd (opened scenarioFS (app_viewer notesApp) ?A)"
  have selA: "App_Update scenarioFS notesApp (FileSelectedMsg ?A) = Inr (?a1, [?cA])"
    by (rule App_Update_select [OF reg])
  have reg1: "vr_viewers (app_viewer ?a1) = [mdV, jsonV, textV]"
    using reg by simp
  let ?a2 = "?a1\<lparr>app_editPath := ?B, app_viewer := fst (opened scenarioFS (app_viewer ?a1) ?B)\<rparr>"
  let ?cB = "snd (opened scenarioFS (app_viewer ?a1) ?B)"
  have selB: "App_Update scenarioFS ?a1 (FileSelectedMsg ?B) = Inr (?a2, [?cB])"
    by (rule App_Update_select [OF reg1])
  have mA: "?cA notesReader = FileLoadedMsg ?A ''alpha'' None"
    and mB: "?cB notesReader = MarkdownLoadedMsg ?B ''rendered: # beta'' None"
    by (simp_all only: opened_cmd_notes)
  from C3_stale_load_discarded [OF reg ne selA selB, of notesReader notesReader]
  obtain a3 where s: "App_Update scenarioFS ?a2 (?cA notesReader) = Inr (?a2, [])"
    "App_Update scenarioFS ?a2 (?cB notesReader) = Inr (a3, [])"
    "App_Update scenarioFS a3 (?cA notesReader) = Inr (a3, [])"
    "shown (app_viewer a3) = delivered (?cB notesReader)"
    by blast
  have "shown (app_viewer a3) = Some (?B, MarkdownContent ''rendered: # beta'' None)"
    using s(4) by (simp only: mB) (simp add: delivered_def)
  then show ?thesis
    using reg ne selA selB mA mB s(1,2,3) by blast
qed

text \<open>
  The guard compares paths only: of two completions for the path the viewer waits for,
  the one that arrives last is shown, whichever load it came from.
\<close>

lemma same_path_completions_last_wins:
  "TextViewer_Update (TextViewer_Update t (FileLoadedMsg (tv_path t) c2 e2))
     (FileLoadedMsg (tv_path t) c1 e1)
   = TextViewer_Update t (FileLoadedMsg (tv_path t) c1 e1)"
  by (simp add: TextViewer_Update_def)

subsection \<open>The end of an editing session\<close>

lemma ViewerRouter_SetFocused_errors [simp]:
  "tv_err (vr_text (ViewerRouter_SetFocused r f)) = tv_err (vr_text r)"
  "mv_err (vr_md (ViewerRouter_SetFocused r f)) = mv_err (vr_md r)"
  "jv_err (vr_jsonv (ViewerRouter_SetFocused r f)) = jv_err (vr_jsonv r)"
proof -
  show "tv_err (vr_text (ViewerRouter_SetFocused r f)) = tv_err (vr_text r)"
    by (cases "vr_current r"; (cases "the (vr_current r)")?)
       (simp_all add: ViewerRouter_SetFocused_def Let_def MarkdownViewer_SetFocused_def
          JSONViewer_SetFocused_def TextViewer_SetFocused_def)
  show "mv_err (vr_md (ViewerRouter_SetFocused r f)) = mv_err (vr_md r)"
    by (cases "vr_current r"; (cases "the (vr_current r)")?)
       (simp_all add: ViewerRouter_SetFocused_def Let_def MarkdownViewer_SetFocused_def
          JSONViewer_SetFocused_def TextViewer_SetFocused_def)
  show "jv_err (vr_jsonv (ViewerRouter_SetFocused r f)) = jv_err (vr_jsonv r)"
    by (cases "vr_current r"; (cases "the (vr_current r)")?)
       (simp_all add: ViewerRouter_SetFocused_def Let_def MarkdownViewer_SetFocused_def
          JSONViewer_SetFocused_def TextViewer_SetFocused_def)
qed

text \<open>
  C5. A save that failed ends the editing session exactly as a cancel does: the
  application is in viewer mode with the viewer focused and no command is issued, so
  there is no reload; and no error field of the editor or of a viewer changes, so
  nothing of the failure is there to show.
\<close>

theorem C5_failed_save_is_not_surfaced:
  "App_Update lib a (EditorSavedMsg p (Some err)) = App_Update lib a (EditorCancelledMsg p)
   \<and> (case App_Update lib a (EditorSavedMsg p (Some err)) of
        Inr (a1, cmds) \<Rightarrow>
          app_mode a1 = ModeViewer \<and> app_focus a1 = FocusViewer \<and> cmds = []
          \<and> shownErrors a1 = shownErrors a
      | Inl x \<Rightarrow> False)"
  by (simp add: Let_def shownErrors_def Editor_SetFocused_def)

text \<open>
  A save that succeeded leaves the editor for the viewer and issues one command: the
  load of the saved path into the viewer dispatch selects for it.
\<close>

lemma App_Update_saved_ok:
  assumes "vr_viewers (app_viewer a) = [mdV, jsonV, textV]"
  shows "\<exists>a1 cmd. App_Update lib a (EditorSavedMsg p None) = Inr (a1, [cmd])
          \<and> app_mode a1 = ModeViewer \<and> app_focus a1 = FocusViewer
          \<and> selected lib (app_viewer a) p = vr_current (app_viewer a1)
          \<and> pathOf (app_viewer a1) (dispatch lib p) = p
          \<and> map_option fst (delivered (cmd rd)) = Some p"
proof -
  let ?r = "ViewerRouter_SetFocused (app_viewer a) True"
  have reg: "vr_viewers ?r = [mdV, jsonV, textV]"
    using assms
    by (cases "vr_current (app_viewer a)") (simp_all add: ViewerRouter_SetFocused_def Let_def)
  have o: "OpenFile lib ?r p = Inr (opened lib ?r p)"
    using OpenFile_registered [OF reg, of lib p] by (simp add: opened_def)
  show ?thesis
    using o opened_delivers [of lib ?r p rd] selected_registered [OF assms, of lib p]
    by (simp add: Let_def case_prod_beta)
qed


end
